theory Spec2Isabelle
  imports Main "HOL-Library.Word"
begin

unbundle bit_operations_syntax

section \<open>Limbs and the constants of the backend's header\<close>

text \<open>
  The model fixes the mainstream build: a limb (\<open>::mp_limb_t\<close>) is an unsigned 64-bit word
  and there are no nail bits. Sizes in limbs (\<open>mpz_size_t\<close>, \<open>mpz_alloc_t\<close>) are C \<open>int\<close>s
  whose magnitude never exceeds the static size (at most 64) on the paths modelled here;
  they are modelled as \<open>int\<close>. A bit count (\<open>::mp_bitcnt_t\<close>) is an unsigned 64-bit word.
\<close>

type_synonym mp_limb_t = "64 word"
type_synonym mp_bitcnt_t = "64 word"

text \<open>Modelled from the spec: \<open>GMP_NUMB_BITS\<close> of the backend's header, the number of
  value bits of a limb (64 on the build modelled).\<close>

definition GMP_NUMB_BITS :: nat where
  "GMP_NUMB_BITS = 64"

text \<open>Modelled from the spec: \<open>GMP_NUMB_MASK\<close> of the backend's header, the mask of the
  value bits of a limb (all ones without nails).\<close>

definition GMP_NUMB_MASK :: mp_limb_t where
  "GMP_NUMB_MASK = - 1"

text \<open>The largest value of \<open>std::size_t\<close> (64 bits).\<close>

definition SIZE_MAX :: nat where
  "SIZE_MAX = 2 ^ 64 - 1"

text \<open>Exceptions thrown by the library, and \<open>std::abort\<close>. The only class derived from
  \<open>std::domain_error\<close> is \<open>zero_division_error\<close>.\<close>

datatype error = invalid_argument | overflow_error | zero_division_error | aborted

definition is_domain_error :: "error \<Rightarrow> bool" where
  "is_domain_error e = (e = zero_division_error)"

text \<open>The value of a little-endian sequence of limbs, and the first \<open>n\<close> limbs of a
  natural number.\<close>

fun limbs_to_nat :: "mp_limb_t list \<Rightarrow> nat" where
  "limbs_to_nat [] = 0"
| "limbs_to_nat (x # xs) = unat x + 2 ^ 64 * limbs_to_nat xs"

fun nat_to_limbs :: "nat \<Rightarrow> nat \<Rightarrow> mp_limb_t list" where
  "nat_to_limbs 0 v = []"
| "nat_to_limbs (Suc n) v = word_of_nat v # nat_to_limbs n (v div 2 ^ 64)"

text \<open>The number of limbs needed for a natural number (0 for 0).\<close>

fun nlimbs_of :: "nat \<Rightarrow> nat" where
  "nlimbs_of v = (if v = 0 then 0 else Suc (nlimbs_of (v div 2 ^ 64)))"

declare nlimbs_of.simps [simp del]

text \<open>Writing a block of limbs into an array at an offset (\<open>copy_limbs\<close>, \<open>copy_limbs_no\<close>
  and the limb-level backend functions all write a contiguous block). Limbs that would fall
  outside the array are dropped.\<close>

definition write_limbs :: "mp_limb_t list \<Rightarrow> nat \<Rightarrow> mp_limb_t list \<Rightarrow> mp_limb_t list" where
  "write_limbs arr off xs =
     take (length arr) (take off arr @ xs @ drop (off + length xs) arr)"

text \<open>\<open>limb_add_overflow\<close>: the sum modulo \<open>2^64\<close> and the carry.\<close>

definition limb_add_overflow :: "mp_limb_t \<Rightarrow> mp_limb_t \<Rightarrow> mp_limb_t \<times> mp_limb_t" where
  "limb_add_overflow a b = (let res = a + b in (if res < a then 1 else 0, res))"

section \<open>The static integer and the backend's descriptor\<close>

record static_int =
  mp_alloc :: int
  mp_size :: int
  m_limbs :: "mp_limb_t list"

text \<open>Modelled from the spec: the backend's descriptor (\<open>mpz_struct_t\<close>) with its fields
  \<open>_mp_alloc\<close>, \<open>_mp_size\<close> and the heap buffer \<open>_mp_d\<close> points to.\<close>

record mpz_struct_t =
  z_alloc :: int
  z_size :: int
  z_d :: "mp_limb_t list"

definition s_alloc :: int where
  "s_alloc = - 1"

definition opt_size :: nat where
  "opt_size = 2"

text \<open>\<open>static_int()\<close>: the static zero.\<close>

definition static_int_ctor :: "nat \<Rightarrow> static_int" where
  "static_int_ctor SSize = \<lparr>mp_alloc = s_alloc, mp_size = 0, m_limbs = replicate SSize 0\<rparr>"

definition abs_size :: "static_int \<Rightarrow> int" where
  "abs_size n = (if mp_size n \<ge> 0 then mp_size n else - mp_size n)"

definition dtor_checks :: "nat \<Rightarrow> static_int \<Rightarrow> bool" where
  "dtor_checks SSize n =
     (let asize = abs_size n in
      if mp_alloc n \<noteq> s_alloc then False
      else if asize > int SSize then False
      else if SSize \<le> opt_size
              \<and> list_ex (\<lambda>l. l \<noteq> 0) (drop (nat asize) (take SSize (m_limbs n))) then False
      else if asize > 0 \<and> (m_limbs n ! nat (asize - 1)) AND GMP_NUMB_MASK = 0 then False
      else True)"

definition zero_unused_limbs :: "nat \<Rightarrow> static_int \<Rightarrow> static_int" where
  "zero_unused_limbs SSize n =
     (if SSize \<le> opt_size
      then n\<lparr>m_limbs := write_limbs (m_limbs n) (nat (abs_size n))
                            (replicate (SSize - nat (abs_size n)) 0)\<rparr>
      else n)"

text \<open>\<open>static_mpz_view\<close>: a descriptor that points at the inline limbs.\<close>

definition get_mpz_view_st :: "nat \<Rightarrow> static_int \<Rightarrow> mpz_struct_t" where
  "get_mpz_view_st SSize n = \<lparr>z_alloc = int SSize, z_size = mp_size n, z_d = m_limbs n\<rparr>"

section \<open>The backend\<close>

text \<open>Modelled from the spec: the integer a descriptor denotes (sign-magnitude size, limbs
  little-endian); every backend function below is specified through it.\<close>

definition mpz_value :: "mpz_struct_t \<Rightarrow> int" where
  "mpz_value d = sgn (z_size d) * int (limbs_to_nat (take (nat \<bar>z_size d\<bar>) (z_d d)))"

text \<open>Modelled from the spec: how the backend stores an integer into a descriptor it owns:
  the limbs are written into the buffer, which is reallocated when it is too small.\<close>

definition mpz_store :: "mpz_struct_t \<Rightarrow> int \<Rightarrow> mpz_struct_t" where
  "mpz_store d v =
     (let n = nlimbs_of (nat \<bar>v\<bar>);
          ls = nat_to_limbs n (nat \<bar>v\<bar>);
          buf = (if n \<le> length (z_d d) then ls @ drop n (z_d d) else ls)
      in \<lparr>z_alloc = (if n \<le> length (z_d d) then z_alloc d else int n),
          z_size = sgn v * int n, z_d = buf\<rparr>)"

text \<open>Modelled from the spec: backend \<open>mpz_init2\<close> for a whole number of limbs: value zero, at
  least one limb allocated.\<close>

definition mpz_init2 :: "nat \<Rightarrow> mpz_struct_t" where
  "mpz_init2 nl = \<lparr>z_alloc = int (max 1 nl), z_size = 0, z_d = replicate (max 1 nl) 0\<rparr>"

text \<open>Modelled from the spec: backend \<open>mpz_init\<close>.\<close>

definition mpz_init :: mpz_struct_t where
  "mpz_init = mpz_init2 0"

text \<open>Modelled from the spec: backend \<open>mpz_set\<close>.\<close>

definition mpz_set :: "mpz_struct_t \<Rightarrow> mpz_struct_t \<Rightarrow> mpz_struct_t" where
  "mpz_set rop op = mpz_store rop (mpz_value op)"

text \<open>Modelled from the spec: backend \<open>mpz_sgn\<close>.\<close>

definition mpz_sgn :: "mpz_struct_t \<Rightarrow> int" where
  "mpz_sgn d = (if z_size d < 0 then - 1 else if z_size d > 0 then 1 else 0)"

text \<open>Modelled from the spec: backend \<open>mpz_size\<close>, the number of limbs.\<close>

definition mpz_size :: "mpz_struct_t \<Rightarrow> nat" where
  "mpz_size d = nat \<bar>z_size d\<bar>"

text \<open>Modelled from the spec: backend \<open>mpz_cmp\<close> (negative, zero or positive).\<close>

definition mpz_cmp :: "mpz_struct_t \<Rightarrow> mpz_struct_t \<Rightarrow> int" where
  "mpz_cmp a b = sgn (mpz_value a - mpz_value b)"

text \<open>Modelled from the spec: backend \<open>mpz_add\<close> and \<open>mpz_sub\<close>.\<close>

definition mpz_add :: "mpz_struct_t \<Rightarrow> mpz_struct_t \<Rightarrow> mpz_struct_t \<Rightarrow> mpz_struct_t" where
  "mpz_add rop a b = mpz_store rop (mpz_value a + mpz_value b)"

definition mpz_sub :: "mpz_struct_t \<Rightarrow> mpz_struct_t \<Rightarrow> mpz_struct_t \<Rightarrow> mpz_struct_t" where
  "mpz_sub rop a b = mpz_store rop (mpz_value a - mpz_value b)"

text \<open>Truncated division of integers (quotient rounded towards zero, remainder with the
  sign of the dividend).\<close>

definition tdiv :: "int \<Rightarrow> int \<Rightarrow> int" where
  "tdiv a b = sgn a * sgn b * (\<bar>a\<bar> div \<bar>b\<bar>)"

definition trem :: "int \<Rightarrow> int \<Rightarrow> int" where
  "trem a b = sgn a * (\<bar>a\<bar> mod \<bar>b\<bar>)"

text \<open>Modelled from the spec: backend \<open>mpz_tdiv_qr\<close>: quotient and remainder of the truncated
  division, into two distinct descriptors.\<close>

definition mpz_tdiv_qr ::
  "mpz_struct_t \<Rightarrow> mpz_struct_t \<Rightarrow> mpz_struct_t \<Rightarrow> mpz_struct_t \<Rightarrow> mpz_struct_t \<times> mpz_struct_t" where
  "mpz_tdiv_qr q r n d =
     (mpz_store q (tdiv (mpz_value n) (mpz_value d)), mpz_store r (trem (mpz_value n) (mpz_value d)))"

text \<open>Modelled from the spec: backend \<open>mpz_swap\<close>.\<close>

definition mpz_swap :: "mpz_struct_t \<Rightarrow> mpz_struct_t \<Rightarrow> mpz_struct_t \<times> mpz_struct_t" where
  "mpz_swap a b = (b, a)"

text \<open>Modelled from the spec: the digits of a natural number in a base, most significant
  first (a single \<open>0\<close> for zero); the backend's digit characters (\<open>0-9a-z\<close> up to base 36,
  \<open>0-9A-Za-z\<close> above); backend \<open>mpz_get_str\<close> and \<open>mpz_sizeinbase\<close> (taken as exact).\<close>

fun digits_of :: "nat \<Rightarrow> nat \<Rightarrow> nat list" where
  "digits_of b n = (if b < 2 \<or> n < b then [n] else digits_of b (n div b) @ [n mod b])"

declare digits_of.simps [simp del]

definition digit_char :: "int \<Rightarrow> nat \<Rightarrow> char" where
  "digit_char base d =
     (if base \<le> 36 then ''0123456789abcdefghijklmnopqrstuvwxyz'' ! d
      else ''0123456789ABCDEFGHIJKLMNOPQRSTUVWXYZabcdefghijklmnopqrstuvwxyz'' ! d)"

definition mpz_get_str :: "int \<Rightarrow> mpz_struct_t \<Rightarrow> string" where
  "mpz_get_str base d =
     (if mpz_value d < 0 then [CHR ''-''] else [])
       @ map (digit_char base) (digits_of (nat base) (nat \<bar>mpz_value d\<bar>))"

definition mpz_sizeinbase :: "mpz_struct_t \<Rightarrow> int \<Rightarrow> nat" where
  "mpz_sizeinbase d base = length (digits_of (nat base) (nat \<bar>mpz_value d\<bar>))"

section \<open>The pool of descriptors\<close>

type_synonym mpz_cache = "mpz_struct_t list list"

definition max_size :: nat where
  "max_size = 10"

definition max_entries :: nat where
  "max_entries = 100"

definition mpz_cache_ctor :: mpz_cache where
  "mpz_cache_ctor = replicate max_size []"

text \<open>\<open>mpz_init_nlimbs\<close>: the two overflow checks end in \<open>std::abort\<close>.\<close>

definition mpz_init_nlimbs :: "nat \<Rightarrow> error + mpz_struct_t" where
  "mpz_init_nlimbs nlimbs =
     (if nlimbs > SIZE_MAX div GMP_NUMB_BITS then Inl aborted
      else let nbits = (GMP_NUMB_BITS * nlimbs) mod 2 ^ 64
           in if nbits > 2 ^ 64 - 1 then Inl aborted
              else Inr (mpz_init2 ((nbits + 63) div 64)))"

text \<open>\<open>mpz_cache::push\<close>: the descriptor is parked, or cleared by the backend. The allocation
  size is cast to unsigned.\<close>

definition push :: "mpz_cache \<Rightarrow> mpz_struct_t \<Rightarrow> mpz_cache" where
  "push m_vec m =
     (let sz = unat (word_of_int (z_alloc m) :: 32 word) in
      if sz = 0 \<or> sz > max_size \<or> length (m_vec ! (sz - 1)) \<ge> max_entries
      then m_vec
      else m_vec[sz - 1 := (m_vec ! (sz - 1)) @ [m]])"

text \<open>\<open>mpz_cache::pop\<close>: a parked descriptor of that size (with whatever value it holds),
  or a new one.\<close>

definition pop :: "mpz_cache \<Rightarrow> nat \<Rightarrow> (error + mpz_struct_t) \<times> mpz_cache" where
  "pop m_vec sz =
     (if sz = 0 \<or> sz > max_size \<or> m_vec ! (sz - 1) = []
      then (mpz_init_nlimbs sz, m_vec)
      else (Inr (last (m_vec ! (sz - 1))), m_vec[sz - 1 := butlast (m_vec ! (sz - 1))]))"

definition mpz_init_cache :: "mpz_cache \<Rightarrow> nat \<Rightarrow> (error + mpz_struct_t) \<times> mpz_cache" where
  "mpz_init_cache c nlimbs = pop c nlimbs"

definition mpz_clear_cache :: "mpz_cache \<Rightarrow> mpz_struct_t \<Rightarrow> mpz_cache" where
  "mpz_clear_cache c m = push c m"

definition mpz_init_set_cache ::
  "mpz_cache \<Rightarrow> mpz_struct_t \<Rightarrow> (error + mpz_struct_t) \<times> mpz_cache" where
  "mpz_init_set_cache c m1 =
     (case mpz_init_cache c (mpz_size m1) of
        (Inl e, c') \<Rightarrow> (Inl e, c')
      | (Inr m0, c') \<Rightarrow> (Inr (mpz_set m0 m1), c'))"

section \<open>The storage variant\<close>

text \<open>The union of the static integer and the backend's descriptor. Both layouts start with
  the allocation word and the size word, which the code reads through \<open>m_st\<close> whatever the
  active member is.\<close>

datatype integer_union = St (g_st: static_int) | Dy (g_dy: mpz_struct_t)

definition first_word :: "integer_union \<Rightarrow> int" where
  "first_word u = (case u of St s \<Rightarrow> mp_alloc s | Dy d \<Rightarrow> z_alloc d)"

definition size_word :: "integer_union \<Rightarrow> int" where
  "size_word u = (case u of St s \<Rightarrow> mp_size s | Dy d \<Rightarrow> z_size d)"

definition is_static :: "integer_union \<Rightarrow> bool" where
  "is_static u = (first_word u = s_alloc)"

definition is_dynamic :: "integer_union \<Rightarrow> bool" where
  "is_dynamic u = (first_word u \<noteq> s_alloc)"

text \<open>\<open>mp_integer::sign\<close>.\<close>

definition sign :: "integer_union \<Rightarrow> int" where
  "sign n = (if size_word n \<noteq> 0 then (if size_word n > 0 then 1 else - 1) else 0)"

text \<open>\<open>mp_integer::get_mpz_view\<close>: the static view, or the dynamic descriptor itself.\<close>

definition get_mpz_view :: "nat \<Rightarrow> integer_union \<Rightarrow> mpz_struct_t" where
  "get_mpz_view SSize n = (if is_static n then get_mpz_view_st SSize (g_st n) else g_dy n)"

text \<open>The invariants of the two storage classes and the integer a value denotes.\<close>

definition valid_static :: "nat \<Rightarrow> static_int \<Rightarrow> bool" where
  "valid_static SSize s = (length (m_limbs s) = SSize \<and> dtor_checks SSize s)"

definition valid_mpz :: "mpz_struct_t \<Rightarrow> bool" where
  "valid_mpz d =
     (0 \<le> z_alloc d \<and> nat \<bar>z_size d\<bar> \<le> length (z_d d)
      \<and> (z_size d = 0 \<or> z_d d ! (nat \<bar>z_size d\<bar> - 1) \<noteq> 0))"

definition valid_integer :: "nat \<Rightarrow> integer_union \<Rightarrow> bool" where
  "valid_integer SSize u = (case u of St s \<Rightarrow> valid_static SSize s | Dy d \<Rightarrow> valid_mpz d)"

definition static_value :: "static_int \<Rightarrow> int" where
  "static_value s = sgn (mp_size s) * int (limbs_to_nat (take (nat \<bar>mp_size s\<bar>) (m_limbs s)))"

definition integer_value :: "integer_union \<Rightarrow> int" where
  "integer_value u = (case u of St s \<Rightarrow> static_value s | Dy d \<Rightarrow> mpz_value d)"

text \<open>What the code relies on to tell the storage classes apart and to read a value: a
  static integer satisfies its invariants, a descriptor has a nonnegative allocation count
  (never the tag of static storage). The descriptors parked in the pool have nonnegative
  allocation counts as well (\<open>push\<close> asserts it).\<close>

definition well_stored :: "nat \<Rightarrow> integer_union \<Rightarrow> bool" where
  "well_stored SSize u = (case u of St s \<Rightarrow> valid_static SSize s | Dy d \<Rightarrow> 0 \<le> z_alloc d)"

definition valid_cache :: "mpz_cache \<Rightarrow> bool" where
  "valid_cache c = (length c = max_size \<and> list_all (list_all (\<lambda>m. 0 \<le> z_alloc m)) c)"

text \<open>The program state: the integer objects by address, and the thread's pool.\<close>

type_synonym addr = nat

record world =
  objs :: "addr \<Rightarrow> integer_union"
  cache :: mpz_cache

text \<open>\<open>integer_union::destroy_dynamic\<close>: the descriptor goes back to the pool.\<close>

definition destroy_dynamic :: "addr \<Rightarrow> world \<Rightarrow> world" where
  "destroy_dynamic this w = w\<lparr>cache := mpz_clear_cache (cache w) (g_dy (objs w this))\<rparr>"

text \<open>\<open>integer_union::promote\<close>.\<close>

definition promote :: "nat \<Rightarrow> addr \<Rightarrow> nat \<Rightarrow> world \<Rightarrow> (error + unit) \<times> world" where
  "promote SSize this nlimbs w =
     (let v = get_mpz_view_st SSize (g_st (objs w this));
          (res, c) = (if nlimbs = 0 then mpz_init_set_cache (cache w) v
                      else (case mpz_init_cache (cache w) nlimbs of
                              (Inl e, c') \<Rightarrow> (Inl e, c')
                            | (Inr tmp_mpz, c') \<Rightarrow> (Inr (mpz_set tmp_mpz v), c')))
      in case res of
           Inl e \<Rightarrow> (Inl e, w\<lparr>cache := c\<rparr>)
         | Inr tmp_mpz \<Rightarrow> (Inr (), \<lparr>objs = (objs w)(this := Dy tmp_mpz), cache = c\<rparr>))"

section \<open>Conversion to bool, equality, string conversion\<close>

definition conversion_impl_bool_st :: "static_int \<Rightarrow> bool" where
  "conversion_impl_bool_st n = (mp_size n \<noteq> 0)"

definition conversion_impl_bool_dy :: "mpz_struct_t \<Rightarrow> bool" where
  "conversion_impl_bool_dy m = (mpz_sgn m \<noteq> 0)"

text \<open>\<open>explicit operator bool\<close>: neither implementation has a throwing path.\<close>

definition operator_bool :: "integer_union \<Rightarrow> error + bool" where
  "operator_bool n =
     (if is_static n then Inr (conversion_impl_bool_st (g_st n))
      else Inr (conversion_impl_bool_dy (g_dy n)))"

text \<open>\<open>operator==\<close>: \<open>std::equal\<close> over the active limbs of \<open>a\<close> with the predicate of the
  source, which masks with \<open>GMP_NUMB_BITS\<close>.\<close>

definition std_equal :: "'a list \<Rightarrow> 'a list \<Rightarrow> ('a \<Rightarrow> 'a \<Rightarrow> bool) \<Rightarrow> bool" where
  "std_equal xs ys p = list_all2 p xs (take (length xs) ys)"

definition operator_eq :: "nat \<Rightarrow> integer_union \<Rightarrow> integer_union \<Rightarrow> bool" where
  "operator_eq SSize a b =
     (let sa = is_static a; sb = is_static b in
      if sa \<and> sb
      then mp_size (g_st a) = mp_size (g_st b)
           \<and> std_equal (take (nat (abs_size (g_st a))) (m_limbs (g_st a))) (m_limbs (g_st b))
                (\<lambda>l1 l2. l1 AND word_of_nat GMP_NUMB_BITS = l2 AND word_of_nat GMP_NUMB_BITS)
      else mpz_cmp (get_mpz_view SSize a) (get_mpz_view SSize b) = 0)"

text \<open>\<open>mpz_to_str\<close>: the two overflow checks, then the backend's conversion.\<close>

definition mpz_to_str :: "mpz_struct_t \<Rightarrow> int \<Rightarrow> error + string" where
  "mpz_to_str mpz base =
     (let size_base = mpz_sizeinbase mpz base in
      if size_base > SIZE_MAX - 2 then Inl overflow_error
      else let total_size = size_base + 2 in
           if total_size mod 2 ^ 64 \<noteq> total_size then Inl overflow_error
           else Inr (mpz_get_str base mpz))"

text \<open>\<open>mp_integer::to_string\<close>: both calls of \<open>mpz_to_str\<close> leave out the base, so its
  default argument 10 is used.\<close>

definition to_string :: "nat \<Rightarrow> integer_union \<Rightarrow> int \<Rightarrow> error + string" where
  "to_string SSize n base =
     (if base < 2 \<or> base > 62 then Inl invalid_argument
      else if is_static n then mpz_to_str (get_mpz_view_st SSize (g_st n)) 10
      else mpz_to_str (g_dy n) 10)"

section \<open>References to static integers\<close>

text \<open>A kernel receives references (\<open>s_int &\<close>) to the static members of integer objects,
  which may be the same object. The kernels below therefore take the addresses and the
  objects, read through the addresses where the source reads, and write where it writes.\<close>

type_synonym heap = "addr \<Rightarrow> integer_union"

definition limbs :: "heap \<Rightarrow> addr \<Rightarrow> mp_limb_t list" where
  "limbs h a = m_limbs (g_st (h a))"

definition set_size :: "heap \<Rightarrow> addr \<Rightarrow> int \<Rightarrow> heap" where
  "set_size h a v = h(a := St ((g_st (h a))\<lparr>mp_size := v\<rparr>))"

definition set_limbs :: "heap \<Rightarrow> addr \<Rightarrow> mp_limb_t list \<Rightarrow> heap" where
  "set_limbs h a ls = h(a := St ((g_st (h a))\<lparr>m_limbs := ls\<rparr>))"

definition set_limb :: "heap \<Rightarrow> addr \<Rightarrow> nat \<Rightarrow> mp_limb_t \<Rightarrow> heap" where
  "set_limb h a i v = set_limbs h a ((limbs h a)[i := v])"

definition put_limbs :: "heap \<Rightarrow> addr \<Rightarrow> nat \<Rightarrow> mp_limb_t list \<Rightarrow> heap" where
  "put_limbs h a off xs = set_limbs h a (write_limbs (limbs h a) off xs)"

text \<open>\<open>copy_limbs\<close> between the limb arrays of two objects: \<open>k\<close> limbs, one at a time from the
  lowest, from offset \<open>so\<close> of \<open>src\<close> to offset \<open>d\<close> of \<open>dst\<close>.\<close>

fun copy_limbs :: "heap \<Rightarrow> addr \<Rightarrow> nat \<Rightarrow> nat \<Rightarrow> addr \<Rightarrow> nat \<Rightarrow> heap" where
  "copy_limbs h src so 0 dst d = h"
| "copy_limbs h src so (Suc k) dst d =
     copy_limbs (set_limb h dst d (limbs h src ! so)) src (Suc so) k dst (Suc d)"

section \<open>The backend's limb-level functions\<close>

text \<open>Modelled from the spec: backend \<open>mpn_add_1\<close>, \<open>mpn_add_n\<close>, \<open>mpn_add\<close>: the sum of the
  operands in as many limbs as the first operand has, and the carry out.\<close>

definition mpn_add :: "mp_limb_t list \<Rightarrow> mp_limb_t list \<Rightarrow> mp_limb_t \<times> mp_limb_t list" where
  "mpn_add s1 s2 =
     (let t = limbs_to_nat s1 + limbs_to_nat s2
      in (word_of_nat (t div 2 ^ (64 * length s1)), nat_to_limbs (length s1) t))"

definition mpn_add_n :: "mp_limb_t list \<Rightarrow> mp_limb_t list \<Rightarrow> mp_limb_t \<times> mp_limb_t list" where
  "mpn_add_n s1 s2 = mpn_add s1 s2"

definition mpn_add_1 :: "mp_limb_t list \<Rightarrow> mp_limb_t \<Rightarrow> mp_limb_t \<times> mp_limb_t list" where
  "mpn_add_1 s1 l = mpn_add s1 [l]"

text \<open>Modelled from the spec: backend \<open>mpn_sub_1\<close>, \<open>mpn_sub_n\<close>, \<open>mpn_sub\<close>: the difference
  modulo \<open>2^(64 n)\<close> in as many limbs as the first operand has, and the borrow out.\<close>

definition mpn_sub :: "mp_limb_t list \<Rightarrow> mp_limb_t list \<Rightarrow> mp_limb_t \<times> mp_limb_t list" where
  "mpn_sub s1 s2 =
     (let t = int (limbs_to_nat s1) - int (limbs_to_nat s2)
      in (if t < 0 then 1 else 0, nat_to_limbs (length s1) (nat (t mod 2 ^ (64 * length s1)))))"

definition mpn_sub_n :: "mp_limb_t list \<Rightarrow> mp_limb_t list \<Rightarrow> mp_limb_t \<times> mp_limb_t list" where
  "mpn_sub_n s1 s2 = mpn_sub s1 s2"

definition mpn_sub_1 :: "mp_limb_t list \<Rightarrow> mp_limb_t \<Rightarrow> mp_limb_t \<times> mp_limb_t list" where
  "mpn_sub_1 s1 l = mpn_sub s1 [l]"

text \<open>Modelled from the spec: backend \<open>mpn_cmp\<close> on operands of equal length.\<close>

definition mpn_cmp :: "mp_limb_t list \<Rightarrow> mp_limb_t list \<Rightarrow> int" where
  "mpn_cmp s1 s2 = sgn (int (limbs_to_nat s1) - int (limbs_to_nat s2))"

text \<open>Modelled from the spec: backend \<open>mpn_lshift\<close>: the operand shifted left by \<open>cnt\<close> bits
  (\<open>1 \<le> cnt < 64\<close>) in as many limbs as it has, and the bits shifted out.\<close>

definition mpn_lshift :: "mp_limb_t list \<Rightarrow> nat \<Rightarrow> mp_limb_t \<times> mp_limb_t list" where
  "mpn_lshift sp cnt =
     (let t = limbs_to_nat sp * 2 ^ cnt
      in (word_of_nat (t div 2 ^ (64 * length sp)), nat_to_limbs (length sp) t))"

text \<open>Modelled from the spec: backend \<open>mpn_divrem_1\<close> without fraction limbs: the quotient by
  a single limb in as many limbs as the dividend has, and the remainder.\<close>

definition mpn_divrem_1 :: "mp_limb_t list \<Rightarrow> mp_limb_t \<Rightarrow> mp_limb_t \<times> mp_limb_t list" where
  "mpn_divrem_1 s2 l =
     (word_of_nat (limbs_to_nat s2 mod unat l),
      nat_to_limbs (length s2) (limbs_to_nat s2 div unat l))"

text \<open>Modelled from the spec: backend \<open>mpn_tdiv_qr\<close>: the quotient in \<open>nn - dn + 1\<close> limbs and
  the remainder in \<open>dn\<close> limbs.\<close>

definition mpn_tdiv_qr :: "mp_limb_t list \<Rightarrow> mp_limb_t list \<Rightarrow> mp_limb_t list \<times> mp_limb_t list" where
  "mpn_tdiv_qr np dp =
     (nat_to_limbs (length np - length dp + 1) (limbs_to_nat np div limbs_to_nat dp),
      nat_to_limbs (length dp) (limbs_to_nat np mod limbs_to_nat dp))"

section \<open>Static addition and subtraction\<close>

text \<open>The algorithm is chosen at compile time; without nail bits it depends on the static
  size alone.\<close>

definition static_add_algo :: "nat \<Rightarrow> nat" where
  "static_add_algo SSize = (if SSize = 1 then 1 else if SSize = 2 then 2 else 0)"

text \<open>\<open>sub_compute_size\<close>: scan down from limb \<open>s - 1\<close> for the first nonzero limb.\<close>

fun sub_compute_size :: "mp_limb_t list \<Rightarrow> nat \<Rightarrow> nat" where
  "sub_compute_size rdata 0 = 0"
| "sub_compute_size rdata (Suc i) =
     (if rdata ! i AND GMP_NUMB_MASK \<noteq> 0 then Suc i else sub_compute_size rdata i)"

text \<open>The general implementation through the backend's limb functions.\<close>

definition static_add_impl_0 ::
  "nat \<Rightarrow> heap \<Rightarrow> addr \<Rightarrow> addr \<Rightarrow> addr \<Rightarrow> int \<Rightarrow> int \<Rightarrow> int \<Rightarrow> int \<Rightarrow> bool \<times> heap" where
  "static_add_impl_0 SSize h rop op1 op2 asize1 asize2 sign1 sign2 =
     (let size1 = mp_size (g_st (h op1)); size2 = mp_size (g_st (h op2)) in
      if sign2 = 0
      then (True, copy_limbs (set_size h rop size1) op1 0 (nat asize1) rop 0)
      else if sign1 = 0
      then (True, copy_limbs (set_size h rop size2) op2 0 (nat asize2) rop 0)
      else
        let data1 = limbs h op1; data2 = limbs h op2;
            c1 = (nat asize1 = SSize
                  \<and> drop_bit (GMP_NUMB_BITS - 1) (data1 ! nat (asize1 - 1) AND GMP_NUMB_MASK) \<noteq> 0);
            c2 = (nat asize2 = SSize
                  \<and> drop_bit (GMP_NUMB_BITS - 1) (data2 ! nat (asize2 - 1) AND GMP_NUMB_MASK) \<noteq> 0)
        in
        if c1 \<or> c2 then (False, h)
        else if sign1 = sign2 then
          (if asize1 \<ge> asize2 then
             let (cy, res) =
                   (if asize2 = 1 then mpn_add_1 (take (nat asize1) data1) (data2 ! 0)
                    else if asize1 = asize2
                    then mpn_add_n (take (nat asize1) data1) (take (nat asize1) data2)
                    else mpn_add (take (nat asize1) data1) (take (nat asize2) data2));
                 h1 = put_limbs h rop 0 res
             in if cy \<noteq> 0
                then (True, set_limb (set_size h1 rop (size1 + sign1)) rop (nat asize1) 1)
                else (True, set_size h1 rop size1)
           else
             let (cy, res) =
                   (if asize1 = 1 then mpn_add_1 (take (nat asize2) data2) (data1 ! 0)
                    else mpn_add (take (nat asize2) data2) (take (nat asize1) data1));
                 h1 = put_limbs h rop 0 res
             in if cy \<noteq> 0
                then (True, set_limb (set_size h1 rop (size2 + sign2)) rop (nat asize2) 1)
                else (True, set_size h1 rop size2))
        else
          (if asize1 > asize2
              \<or> (asize1 = asize2
                  \<and> mpn_cmp (take (nat asize1) data1) (take (nat asize1) data2) \<ge> 0) then
             let (br, res) =
                   (if asize2 = 1 then mpn_sub_1 (take (nat asize1) data1) (data2 ! 0)
                    else if asize1 = asize2
                    then mpn_sub_n (take (nat asize1) data1) (take (nat asize1) data2)
                    else mpn_sub (take (nat asize1) data1) (take (nat asize2) data2));
                 h1 = put_limbs h rop 0 res;
                 h2 = set_size h1 rop (int (sub_compute_size (limbs h1 rop) (nat asize1)))
             in (True, if sign1 \<noteq> 1 then set_size h2 rop (- mp_size (g_st (h2 rop))) else h2)
           else
             let (br, res) =
                   (if asize1 = 1 then mpn_sub_1 (take (nat asize2) data2) (data1 ! 0)
                    else mpn_sub (take (nat asize2) data2) (take (nat asize1) data1));
                 h1 = put_limbs h rop 0 res;
                 h2 = set_size h1 rop (int (sub_compute_size (limbs h1 rop) (nat asize2)))
             in (True, if sign2 \<noteq> 1 then set_size h2 rop (- mp_size (g_st (h2 rop))) else h2)))"

text \<open>The optimisation for a single limb.\<close>

definition static_add_impl_1 ::
  "heap \<Rightarrow> addr \<Rightarrow> addr \<Rightarrow> addr \<Rightarrow> int \<Rightarrow> int \<Rightarrow> int \<Rightarrow> int \<Rightarrow> bool \<times> heap" where
  "static_add_impl_1 h rop op1 op2 asize1 asize2 sign1 sign2 =
     (if sign1 = sign2 then
        let (cy, tmp) = limb_add_overflow (limbs h op1 ! 0) (limbs h op2 ! 0) in
        if cy \<noteq> 0 then (False, h)
        else (True, set_limb (set_size h rop sign1) rop 0 tmp)
      else if limbs h op1 ! 0 \<ge> limbs h op2 ! 0 then
        let tmp = limbs h op1 ! 0 - limbs h op2 ! 0;
            h1 = set_size h rop sign1;
            h2 = (if tmp = 0 then set_size h1 rop 0 else h1)
        in (True, set_limb h2 rop 0 tmp)
      else
        let h1 = set_size h rop sign2
        in (True, set_limb h1 rop 0 (limbs h1 op2 ! 0 - limbs h1 op1 ! 0)))"

text \<open>\<open>compare_limbs_2\<close>: compare two limb arrays of equal size 1 or 2 from the top.\<close>

definition compare_limbs_2 :: "mp_limb_t list \<Rightarrow> mp_limb_t list \<Rightarrow> int \<Rightarrow> int" where
  "compare_limbs_2 data1 data2 asize =
     (let cmp_idx = nat (asize - 1) in
      if data1 ! cmp_idx \<noteq> data2 ! cmp_idx
      then (if data1 ! cmp_idx > data2 ! cmp_idx then 1 else - 1)
      else if cmp_idx = 0 then 0
      else let cmp_idx' = cmp_idx - 1 in
           if data1 ! cmp_idx' \<noteq> data2 ! cmp_idx'
           then (if data1 ! cmp_idx' > data2 ! cmp_idx' then 1 else - 1)
           else 0)"

text \<open>The optimisation for two limbs: both limbs are processed whatever the sizes are.\<close>

definition static_add_impl_2 ::
  "heap \<Rightarrow> addr \<Rightarrow> addr \<Rightarrow> addr \<Rightarrow> int \<Rightarrow> int \<Rightarrow> int \<Rightarrow> int \<Rightarrow> bool \<times> heap" where
  "static_add_impl_2 h rop op1 op2 asize1 asize2 sign1 sign2 =
     (let data1 = limbs h op1; data2 = limbs h op2 in
      if sign1 = sign2 then
        let a = data1 ! 0; b = data2 ! 0; c = data1 ! 1; d = data2 ! 1;
            (cy_lo, lo) = limb_add_overflow a b;
            (cy_hi1, hi1) = limb_add_overflow c d;
            (cy_hi2, hi2) = limb_add_overflow hi1 cy_lo
        in if cy_hi1 \<noteq> 0 \<or> cy_hi2 \<noteq> 0 then (False, h)
           else
             let h1 = set_size h rop sign1;
                 h2 = (if hi2 \<noteq> 0 then set_size h1 rop (sign1 + sign1) else h1)
             in (True, set_limb (set_limb h2 rop 0 lo) rop 1 hi2)
      else if asize1 > asize2 \<or> (asize1 = asize2 \<and> compare_limbs_2 data1 data2 asize1 \<ge> 0) then
        let lo = data1 ! 0 - data2 ! 0;
            hi = data1 ! 1 - data2 ! 1 - (if data1 ! 0 < data2 ! 0 then 1 else 0);
            h1 = set_size h rop 0;
            h2 = (if hi \<noteq> 0 then set_size h1 rop (sign1 + sign1)
                  else if lo \<noteq> 0 then set_size h1 rop sign1 else h1)
        in (True, set_limb (set_limb h2 rop 0 lo) rop 1 hi)
      else
        let lo = data2 ! 0 - data1 ! 0;
            hi = data2 ! 1 - data1 ! 1 - (if data2 ! 0 < data1 ! 0 then 1 else 0);
            h1 = set_size h rop sign2;
            h2 = (if hi \<noteq> 0 then set_size h1 rop (sign2 + sign2) else h1)
        in (True, set_limb (set_limb h2 rop 0 lo) rop 1 hi))"

text \<open>\<open>static_addsub<AddOrSub>\<close>: the sizes and signs of the operands (the second negated for
  a subtraction), the kernel, and the clearing of the unused limbs after the general one.\<close>

definition static_addsub :: "bool \<Rightarrow> nat \<Rightarrow> heap \<Rightarrow> addr \<Rightarrow> addr \<Rightarrow> addr \<Rightarrow> bool \<times> heap" where
  "static_addsub AddOrSub SSize h rop op1 op2 =
     (let asize1_0 = mp_size (g_st (h op1));
          asize2_0 = (if AddOrSub then mp_size (g_st (h op2)) else - mp_size (g_st (h op2)));
          sign1 = (if asize1_0 < 0 then - 1 else if asize1_0 \<noteq> 0 then 1 else 0);
          sign2 = (if asize2_0 < 0 then - 1 else if asize2_0 \<noteq> 0 then 1 else 0);
          asize1 = (if asize1_0 < 0 then - asize1_0 else asize1_0);
          asize2 = (if asize2_0 < 0 then - asize2_0 else asize2_0);
          (retval, h') =
             (if static_add_algo SSize = 1
              then static_add_impl_1 h rop op1 op2 asize1 asize2 sign1 sign2
              else if static_add_algo SSize = 2
              then static_add_impl_2 h rop op1 op2 asize1 asize2 sign1 sign2
              else static_add_impl_0 SSize h rop op1 op2 asize1 asize2 sign1 sign2)
      in if static_add_algo SSize = 0 \<and> retval
         then (retval, h'(rop := St (zero_unused_limbs SSize (g_st (h' rop)))))
         else (retval, h'))"

text \<open>\<open>add\<close> and \<open>sub\<close>: the static kernel when the three objects are static; when it was not
  run or failed, \<open>rop\<close> is promoted if static and the backend computes on the views of the
  operands.\<close>

definition add :: "nat \<Rightarrow> addr \<Rightarrow> addr \<Rightarrow> addr \<Rightarrow> world \<Rightarrow> (error + unit) \<times> world" where
  "add SSize rop op1 op2 w =
     (let sr = is_static (objs w rop); s1 = is_static (objs w op1); s2 = is_static (objs w op2);
          (done, w0) =
             (if sr \<and> s1 \<and> s2
              then (let (ok, h') = static_addsub True SSize (objs w) rop op1 op2
                    in (ok, w\<lparr>objs := h'\<rparr>))
              else (False, w))
      in if done then (Inr (), w0)
         else case (if sr then promote SSize rop (SSize + 1) w0 else (Inr (), w0)) of
                (Inl e, w1) \<Rightarrow> (Inl e, w1)
              | (Inr u, w1) \<Rightarrow>
                  (Inr (), w1\<lparr>objs := (objs w1)(rop :=
                     Dy (mpz_add (g_dy (objs w1 rop)) (get_mpz_view SSize (objs w1 op1))
                                 (get_mpz_view SSize (objs w1 op2))))\<rparr>))"

definition sub :: "nat \<Rightarrow> addr \<Rightarrow> addr \<Rightarrow> addr \<Rightarrow> world \<Rightarrow> (error + unit) \<times> world" where
  "sub SSize rop op1 op2 w =
     (let sr = is_static (objs w rop); s1 = is_static (objs w op1); s2 = is_static (objs w op2);
          (done, w0) =
             (if sr \<and> s1 \<and> s2
              then (let (ok, h') = static_addsub False SSize (objs w) rop op1 op2
                    in (ok, w\<lparr>objs := h'\<rparr>))
              else (False, w))
      in if done then (Inr (), w0)
         else case (if sr then promote SSize rop (SSize + 1) w0 else (Inr (), w0)) of
                (Inl e, w1) \<Rightarrow> (Inl e, w1)
              | (Inr u, w1) \<Rightarrow>
                  (Inr (), w1\<lparr>objs := (objs w1)(rop :=
                     Dy (mpz_sub (g_dy (objs w1 rop)) (get_mpz_view SSize (objs w1 op1))
                                 (get_mpz_view SSize (objs w1 op2))))\<rparr>))"

section \<open>Static shift\<close>

definition static_mul_2exp_algo :: "nat \<Rightarrow> nat" where
  "static_mul_2exp_algo SSize = (if SSize = 1 then 1 else if SSize = 2 then 2 else 0)"

text \<open>The conversion \<open>std::size_t(i)\<close> of a signed size.\<close>

definition size_t_of_int :: "int \<Rightarrow> nat" where
  "size_t_of_int i = unat (word_of_int i :: 64 word)"

text \<open>The general implementation. The number of whole limbs \<open>ls\<close> is converted to the signed
  32-bit size type before it is added to the size (the conversion and the addition are
  taken to wrap around). The limbs of the result are written into the array of \<open>SSize\<close> limbs
  of \<open>rop\<close> from offset \<open>ls\<close>. After a conversion that wrapped around, \<open>ls\<close> limbs and the limbs
  of the operand do not fit in the array although the new size passed the test: the source
  then writes outside the array, its behaviour is undefined, and the result is \<open>None\<close>.\<close>

definition static_mul_2exp_impl_0 ::
  "nat \<Rightarrow> heap \<Rightarrow> addr \<Rightarrow> addr \<Rightarrow> mp_bitcnt_t \<Rightarrow> (bool \<times> heap) option" where
  "static_mul_2exp_impl_0 SSize h rop n s =
     (let asize0 = mp_size (g_st (h n)) in
      if s = 0 \<or> asize0 = 0 then Some (True, h)
      else
        let sign = (if asize0 < 0 then - 1 else if asize0 \<noteq> 0 then 1 else (0::int));
            asize = (if asize0 < 0 then - asize0 else asize0);
            ls = s div word_of_nat GMP_NUMB_BITS;
            rs = s mod word_of_nat GMP_NUMB_BITS;
            new_asize = sint (word_of_int (asize + sint (ucast ls :: 32 word)) :: 32 word)
        in
        if size_t_of_int new_asize < SSize then
          (if unat ls + nat asize > SSize then None
           else
             let (ret, h1) =
                   (if rs \<noteq> 0 then
                      let (out, res) = mpn_lshift (take (nat asize) (limbs h n)) (unat rs);
                          h' = put_limbs h rop (unat ls) res
                      in (out, set_limb h' rop (size_t_of_int new_asize) out)
                    else (0, copy_limbs h n 0 (nat asize) rop (unat ls)));
                 h2 = put_limbs h1 rop 0 (replicate (unat ls) 0);
                 h3 = set_size h2 rop (new_asize + (if ret \<noteq> 0 then 1 else 0))
             in Some (True, if sign = - 1 then set_size h3 rop (- mp_size (g_st (h3 rop)))
                            else h3))
        else if size_t_of_int new_asize = SSize then
          (if rs \<noteq> 0 \<and> fst (mpn_lshift (take (nat asize) (limbs h n)) (unat rs)) \<noteq> 0
           then Some (False, h)
           else if unat ls + nat asize > SSize then None
           else
             let h1 = (if rs \<noteq> 0
                       then put_limbs h rop (unat ls)
                              (snd (mpn_lshift (take (nat asize) (limbs h n)) (unat rs)))
                       else copy_limbs h n 0 (nat asize) rop (unat ls));
                 h2 = put_limbs h1 rop 0 (replicate (unat ls) 0);
                 h3 = set_size h2 rop new_asize
             in Some (True, if sign = - 1 then set_size h3 rop (- mp_size (g_st (h3 rop)))
                            else h3))
        else Some (False, h))"

text \<open>The optimisation for a single limb.\<close>

definition static_mul_2exp_impl_1 :: "heap \<Rightarrow> addr \<Rightarrow> addr \<Rightarrow> mp_bitcnt_t \<Rightarrow> bool \<times> heap" where
  "static_mul_2exp_impl_1 h rop n s =
     (let l = limbs h n ! 0 AND GMP_NUMB_MASK in
      if s = 0 \<or> l = 0 then (True, h)
      else if s \<ge> word_of_nat GMP_NUMB_BITS \<or> drop_bit (GMP_NUMB_BITS - unat s) l \<noteq> 0
      then (False, h)
      else
        let h1 = set_limb h rop 0 (push_bit (unat s) l)
        in (True, set_size h1 rop (mp_size (g_st (h1 n)))))"

text \<open>The optimisation for two limbs. For a shift by exactly one limb the source moves the
  low limb of \<open>rop\<close> itself into its high limb.\<close>

definition static_mul_2exp_impl_2 :: "heap \<Rightarrow> addr \<Rightarrow> addr \<Rightarrow> mp_bitcnt_t \<Rightarrow> bool \<times> heap" where
  "static_mul_2exp_impl_2 h rop n s =
     (let asize0 = mp_size (g_st (h n)) in
      if s = 0 \<or> asize0 = 0 then (True, h)
      else
        let sign = (if asize0 < 0 then - 1 else if asize0 \<noteq> 0 then 1 else (0::int));
            asize = (if asize0 < 0 then - asize0 else asize0)
        in
        if s \<ge> 2 * word_of_nat GMP_NUMB_BITS then (False, h)
        else if s = word_of_nat GMP_NUMB_BITS then
          (if asize = 2 then (False, h)
           else
             let h1 = set_limb h rop 1 (limbs h rop ! 0);
                 h2 = set_limb h1 rop 0 0;
                 h3 = set_size h2 rop 2
             in (True, if sign = - 1 then set_size h3 rop (- 2) else h3))
        else if s > word_of_nat GMP_NUMB_BITS \<and> asize = 2 then (False, h)
        else
          let (lo, hi, s') =
                (if s > word_of_nat GMP_NUMB_BITS
                 then (0, limbs h n ! 0, s - word_of_nat GMP_NUMB_BITS)
                 else (limbs h n ! 0, limbs h n ! 1, s))
          in
          if drop_bit (GMP_NUMB_BITS - unat s') (hi AND GMP_NUMB_MASK) \<noteq> 0 then (False, h)
          else
            let hi' = push_bit (unat s') (hi AND GMP_NUMB_MASK)
                      + drop_bit (GMP_NUMB_BITS - unat s') (lo AND GMP_NUMB_MASK);
                lo' = push_bit (unat s') (lo AND GMP_NUMB_MASK) AND GMP_NUMB_MASK;
                h1 = set_limb (set_limb h rop 0 lo') rop 1 hi';
                h2 = set_size h1 rop (1 + (if hi' \<noteq> 0 then 1 else 0))
            in (True, if sign = - 1 then set_size h2 rop (- mp_size (g_st (h2 rop))) else h2))"

text \<open>\<open>static_mul_2exp\<close>: the result of the kernel is discarded.\<close>

definition static_mul_2exp :: "nat \<Rightarrow> heap \<Rightarrow> addr \<Rightarrow> addr \<Rightarrow> mp_bitcnt_t \<Rightarrow> heap option" where
  "static_mul_2exp SSize h rop n s =
     (case (if static_mul_2exp_algo SSize = 1 then Some (static_mul_2exp_impl_1 h rop n s)
            else if static_mul_2exp_algo SSize = 2 then Some (static_mul_2exp_impl_2 h rop n s)
            else static_mul_2exp_impl_0 SSize h rop n s) of
        None \<Rightarrow> None
      | Some (ok, h') \<Rightarrow>
          Some (if static_mul_2exp_algo SSize = 0
                then h'(rop := St (zero_unused_limbs SSize (g_st (h' rop))))
                else h'))"

text \<open>\<open>mul_2exp\<close>: the body of the public function is empty.\<close>

definition mul_2exp :: "nat \<Rightarrow> addr \<Rightarrow> addr \<Rightarrow> mp_bitcnt_t \<Rightarrow> world \<Rightarrow> (error + unit) \<times> world" where
  "mul_2exp SSize rop n s w = (Inr (), w)"

section \<open>Static division\<close>

text \<open>The algorithm is chosen at compile time from the static size and from the presence of
  a double-limb division (\<open>have_dlimb_div\<close>, a property of the compiler), which is a parameter
  here.\<close>

definition static_div_algo :: "nat \<Rightarrow> bool \<Rightarrow> nat" where
  "static_div_algo SSize have_dlimb_div =
     (if SSize = 1 then 1 else if SSize = 2 \<and> have_dlimb_div then 2 else 0)"

text \<open>The loops that complete a size: step down while the top limb is zero.\<close>

fun strip_size :: "mp_limb_t list \<Rightarrow> nat \<Rightarrow> nat" where
  "strip_size ls 0 = 0"
| "strip_size ls (Suc i) =
     (if ls ! i AND GMP_NUMB_MASK = 0 then strip_size ls i else Suc i)"

text \<open>The general implementation. When an operand is the same object as \<open>q\<close> or \<open>r\<close> (or the
  operands are the same object) the source copies its limbs into a local array first, so
  the backend's functions always read the limbs the operands had on entry.\<close>

definition static_div_impl_0 ::
  "nat \<Rightarrow> heap \<Rightarrow> addr \<Rightarrow> addr \<Rightarrow> addr \<Rightarrow> addr \<Rightarrow> int \<Rightarrow> int \<Rightarrow> int \<Rightarrow> int \<Rightarrow> heap" where
  "static_div_impl_0 SSize h q r op1 op2 asize1 asize2 sign1 sign2 =
     (if asize2 > asize1 then
        let h1 = h(r := St (g_st (h op1)))
        in set_size h1 q 0
      else
        let data1 = take (nat asize1) (limbs h op1);
            data2 = take (nat asize2) (limbs h op2);
            h1 = (if asize2 = 1 then
                    let (rem, qs) = mpn_divrem_1 data1 (data2 ! 0)
                    in set_limb (put_limbs h q 0 qs) r 0 rem
                  else
                    let (qs, rs) = mpn_tdiv_qr data1 data2
                    in put_limbs (put_limbs h q 0 qs) r 0 rs);
            h2 = set_size h1 q (int (strip_size (limbs h1 q) (nat (asize1 - asize2 + 1))));
            h3 = (if sign1 \<noteq> sign2 then set_size h2 q (- mp_size (g_st (h2 q))) else h2);
            h4 = set_size h3 r (int (strip_size (limbs h3 r) (nat asize2)))
        in if sign1 = - 1 then set_size h4 r (- mp_size (g_st (h4 r))) else h4)"

text \<open>The optimisation for a single limb.\<close>

definition static_div_impl_1 ::
  "heap \<Rightarrow> addr \<Rightarrow> addr \<Rightarrow> addr \<Rightarrow> addr \<Rightarrow> int \<Rightarrow> int \<Rightarrow> heap" where
  "static_div_impl_1 h q r op1 op2 sign1 sign2 =
     (let qq = (limbs h op1 ! 0 AND GMP_NUMB_MASK) div (limbs h op2 ! 0 AND GMP_NUMB_MASK);
          rr = (limbs h op1 ! 0 AND GMP_NUMB_MASK) mod (limbs h op2 ! 0 AND GMP_NUMB_MASK);
          h1 = set_size h q (if qq \<noteq> 0 then 1 else 0);
          h2 = (if sign1 \<noteq> sign2 then set_size h1 q (- mp_size (g_st (h1 q))) else h1);
          h3 = set_limb h2 q 0 qq;
          h4 = set_size h3 r (if rr \<noteq> 0 then 1 else 0);
          h5 = (if sign1 = - 1 then set_size h4 r (- mp_size (g_st (h4 r))) else h4)
      in set_limb h5 r 0 rr)"

text \<open>\<open>dlimb_div\<close>: division of two double limbs through the 128-bit type.\<close>

definition dlimb_div ::
  "mp_limb_t \<Rightarrow> mp_limb_t \<Rightarrow> mp_limb_t \<Rightarrow> mp_limb_t
    \<Rightarrow> mp_limb_t \<times> mp_limb_t \<times> mp_limb_t \<times> mp_limb_t" where
  "dlimb_div op11 op12 op21 op22 =
     (let op1 = (ucast op11 :: 128 word) + push_bit 64 (ucast op12 :: 128 word);
          op2 = (ucast op21 :: 128 word) + push_bit 64 (ucast op22 :: 128 word);
          q = op1 div op2; r = op1 mod op2
      in (ucast (q AND ucast (- 1 :: mp_limb_t)), ucast (drop_bit 64 q),
          ucast (r AND ucast (- 1 :: mp_limb_t)), ucast (drop_bit 64 r)))"

text \<open>The optimisation for two limbs.\<close>

definition static_div_impl_2 ::
  "heap \<Rightarrow> addr \<Rightarrow> addr \<Rightarrow> addr \<Rightarrow> addr \<Rightarrow> int \<Rightarrow> int \<Rightarrow> int \<Rightarrow> int \<Rightarrow> heap" where
  "static_div_impl_2 h q r op1 op2 asize1 asize2 sign1 sign2 =
     (if asize1 < 2 \<and> asize2 < 2 then
        let qq = limbs h op1 ! 0 div limbs h op2 ! 0;
            rr = limbs h op1 ! 0 mod limbs h op2 ! 0;
            h1 = set_size h q (if qq \<noteq> 0 then 1 else 0);
            h2 = (if sign1 \<noteq> sign2 then set_size h1 q (- mp_size (g_st (h1 q))) else h1);
            h3 = set_limb (set_limb h2 q 0 qq) q 1 0;
            h4 = set_size h3 r (if rr \<noteq> 0 then 1 else 0);
            h5 = (if sign1 = - 1 then set_size h4 r (- mp_size (g_st (h4 r))) else h4)
        in set_limb (set_limb h5 r 0 rr) r 1 0
      else
        let (q1, q2, r1, r2) =
              dlimb_div (limbs h op1 ! 0) (limbs h op1 ! 1) (limbs h op2 ! 0) (limbs h op2 ! 1);
            h1 = set_size h q (if q2 \<noteq> 0 then 2 else if q1 \<noteq> 0 then 1 else 0);
            h2 = (if sign1 \<noteq> sign2 then set_size h1 q (- mp_size (g_st (h1 q))) else h1);
            h3 = set_limb (set_limb h2 q 0 q1) q 1 q2;
            h4 = set_size h3 r (if r2 \<noteq> 0 then 2 else if r1 \<noteq> 0 then 1 else 0);
            h5 = (if sign1 = - 1 then set_size h4 r (- mp_size (g_st (h4 r))) else h4)
        in set_limb (set_limb h5 r 0 r1) r 1 r2)"

definition static_div :: "nat \<Rightarrow> bool \<Rightarrow> heap \<Rightarrow> addr \<Rightarrow> addr \<Rightarrow> addr \<Rightarrow> addr \<Rightarrow> heap" where
  "static_div SSize have_dlimb_div h q r op1 op2 =
     (let asize1_0 = mp_size (g_st (h op1));
          asize2_0 = mp_size (g_st (h op2));
          sign1 = (if asize1_0 < 0 then - 1 else if asize1_0 \<noteq> 0 then 1 else 0);
          sign2 = (if asize2_0 < 0 then - 1 else if asize2_0 \<noteq> 0 then 1 else 0);
          asize1 = (if asize1_0 < 0 then - asize1_0 else asize1_0);
          asize2 = (if asize2_0 < 0 then - asize2_0 else asize2_0)
      in if static_div_algo SSize have_dlimb_div = 1
         then static_div_impl_1 h q r op1 op2 sign1 sign2
         else if static_div_algo SSize have_dlimb_div = 2
         then static_div_impl_2 h q r op1 op2 asize1 asize2 sign1 sign2
         else
           let h1 = static_div_impl_0 SSize h q r op1 op2 asize1 asize2 sign1 sign2;
               h2 = h1(q := St (zero_unused_limbs SSize (g_st (h1 q))))
           in h2(r := St (zero_unused_limbs SSize (g_st (h2 r)))))"

text \<open>\<open>div\<close>: the two checks, then the static kernel when the four objects are static, else
  promotion of \<open>q\<close> and \<open>r\<close> and the backend's division on the views of the operands.\<close>

definition div_integer ::
  "nat \<Rightarrow> bool \<Rightarrow> addr \<Rightarrow> addr \<Rightarrow> addr \<Rightarrow> addr \<Rightarrow> world \<Rightarrow> (error + unit) \<times> world" where
  "div_integer SSize have_dlimb_div q r op1 op2 w =
     (if q = r then (Inl invalid_argument, w)
      else if sign (objs w op2) = 0 then (Inl zero_division_error, w)
      else
        let sq = is_static (objs w q); sr = is_static (objs w r);
            s1 = is_static (objs w op1); s2 = is_static (objs w op2)
        in
        if sq \<and> sr \<and> s1 \<and> s2
        then (Inr (), w\<lparr>objs := static_div SSize have_dlimb_div (objs w) q r op1 op2\<rparr>)
        else
          case (if sq then promote SSize q 0 w else (Inr (), w)) of
            (Inl e, w1) \<Rightarrow> (Inl e, w1)
          | (Inr u, w1) \<Rightarrow>
              (case (if sr then promote SSize r 0 w1 else (Inr (), w1)) of
                 (Inl e, w2) \<Rightarrow> (Inl e, w2)
               | (Inr u, w2) \<Rightarrow>
                   let (q', r') = mpz_tdiv_qr (g_dy (objs w2 q)) (g_dy (objs w2 r))
                                    (get_mpz_view SSize (objs w2 op1))
                                    (get_mpz_view SSize (objs w2 op2))
                   in (Inr (), w2\<lparr>objs := (objs w2)(q := Dy q', r := Dy r')\<rparr>)))"

section \<open>Move construction and move assignment\<close>

text \<open>The move constructor builds the object at \<open>this\<close> from the object at \<open>other\<close>.\<close>

definition integer_union_move_ctor :: "nat \<Rightarrow> addr \<Rightarrow> addr \<Rightarrow> world \<Rightarrow> world" where
  "integer_union_move_ctor SSize this other w =
     (if is_static (objs w other)
      then w\<lparr>objs := (objs w)(this := St (g_st (objs w other)))\<rparr>
      else
        let h1 = (objs w)(this := Dy (g_dy (objs w other)))
        in w\<lparr>objs := h1(other := St (static_int_ctor SSize))\<rparr>)"

definition move_assign :: "nat \<Rightarrow> addr \<Rightarrow> addr \<Rightarrow> world \<Rightarrow> world" where
  "move_assign SSize this other w =
     (if this = other then w
      else
        let s1 = is_static (objs w this); s2 = is_static (objs w other) in
        if s1 \<and> s2 then w\<lparr>objs := (objs w)(this := St (g_st (objs w other)))\<rparr>
        else if s1 \<and> \<not> s2 then
          let h1 = (objs w)(this := Dy (g_dy (objs w other)))
          in w\<lparr>objs := h1(other := St (static_int_ctor SSize))\<rparr>
        else if \<not> s1 \<and> s2 then
          let w1 = destroy_dynamic this w
          in w1\<lparr>objs := (objs w1)(this := St (g_st (objs w1 other)))\<rparr>
        else
          let (a, b) = mpz_swap (g_dy (objs w this)) (g_dy (objs w other))
          in w\<lparr>objs := (objs w)(this := Dy a, other := Dy b)\<rparr>)"

section \<open>Construction from floating point\<close>

text \<open>A floating-point value of any of the three types is finite, with an integer mantissa
  and a binary exponent (the value \<open>m * 2^e\<close>), an infinity with a sign, or a NaN.\<close>

datatype cxx_float = Finite int int | Infinity bool | NaN

definition isfinite :: "cxx_float \<Rightarrow> bool" where
  "isfinite f = (case f of Finite m e \<Rightarrow> True | Infinity s \<Rightarrow> False | NaN \<Rightarrow> False)"

text \<open>Modelled from the spec: backend \<open>mpz_set_d\<close> (and, for \<open>long double\<close>, the conversion
  through the higher-precision float of the companion library, which is exact, followed by
  \<open>mpfr_get_z\<close> rounding to zero): the finite value truncated towards zero.\<close>

definition mpz_set_d :: "mpz_struct_t \<Rightarrow> cxx_float \<Rightarrow> mpz_struct_t" where
  "mpz_set_d rop f =
     (case f of
        Finite m e \<Rightarrow>
          mpz_store rop (if e \<ge> 0 then m * 2 ^ nat e else sgn m * (\<bar>m\<bar> div 2 ^ nat (- e)))
      | Infinity s \<Rightarrow> rop
      | NaN \<Rightarrow> rop)"

record mpz_raii =
  m_mpz :: mpz_struct_t
  fail_flag :: bool

definition mpz_raii_ctor :: mpz_raii where
  "mpz_raii_ctor = \<lparr>m_mpz = mpz_init, fail_flag = False\<rparr>"

text \<open>\<open>static_int::ctor_from_mpz\<close>.\<close>

definition ctor_from_mpz :: "nat \<Rightarrow> static_int \<Rightarrow> mpz_raii \<Rightarrow> static_int \<times> mpz_raii" where
  "ctor_from_mpz SSize this m =
     (if z_size (m_mpz m) > int SSize \<or> z_size (m_mpz m) < - int SSize
      then (this\<lparr>mp_size := 0\<rparr>, m\<lparr>fail_flag := True\<rparr>)
      else
        let this1 = this\<lparr>mp_size := z_size (m_mpz m)\<rparr>
        in (this1\<lparr>m_limbs := write_limbs (m_limbs this1) 0
                                 (take (nat (abs_size this1)) (z_d (m_mpz m)))\<rparr>, m))"

text \<open>The constructors of the static integer from \<open>float\<close> or \<open>double\<close> and from
  \<open>long double\<close>. The member initialisers set the allocation word and zero the limbs; the
  size word is not initialised (0 here) until \<open>ctor_from_mpz\<close> sets it. An exception leaves
  no object.\<close>

definition static_int_ctor_float ::
  "nat \<Rightarrow> cxx_float \<Rightarrow> mpz_raii \<Rightarrow> (error + static_int) \<times> mpz_raii" where
  "static_int_ctor_float SSize f mpz =
     (if \<not> isfinite f then (Inl invalid_argument, mpz)
      else
        let mpz1 = mpz\<lparr>m_mpz := mpz_set_d (m_mpz mpz) f\<rparr>;
            (this, mpz2) = ctor_from_mpz SSize (static_int_ctor SSize) mpz1
        in (Inr this, mpz2))"

definition static_int_ctor_long_double ::
  "nat \<Rightarrow> cxx_float \<Rightarrow> mpz_raii \<Rightarrow> (error + static_int) \<times> mpz_raii" where
  "static_int_ctor_long_double SSize x mpz =
     (if \<not> isfinite x then (Inl invalid_argument, mpz)
      else
        let mpz1 = mpz\<lparr>m_mpz := mpz_set_d (m_mpz mpz) x\<rparr>;
            (this, mpz2) = ctor_from_mpz SSize (static_int_ctor SSize) mpz1
        in (Inr this, mpz2))"

text \<open>The generic constructor of the union from a floating-point value: the static
  constructor on the thread's scratch descriptor, then the dynamic one when the value
  needs too many limbs. The state is the scratch descriptor and the pool.\<close>

definition integer_union_ctor_float ::
  "nat \<Rightarrow> bool \<Rightarrow> cxx_float \<Rightarrow> mpz_raii \<times> mpz_cache
    \<Rightarrow> (error + integer_union) \<times> mpz_raii \<times> mpz_cache" where
  "integer_union_ctor_float SSize is_long_double x st =
     (let (mpz, c) = st in
      case (if is_long_double then static_int_ctor_long_double SSize x mpz
            else static_int_ctor_float SSize x mpz) of
        (Inl e, mpz') \<Rightarrow> (Inl e, mpz', c)
      | (Inr s, mpz') \<Rightarrow>
          if fail_flag mpz' then
            (let mpz'' = mpz'\<lparr>fail_flag := False\<rparr> in
             case mpz_init_set_cache c (m_mpz mpz'') of
               (Inl e, c') \<Rightarrow> (Inl e, mpz'', c')
             | (Inr m_dy, c') \<Rightarrow> (Inr (Dy m_dy), mpz'', c'))
          else (Inr (St s), mpz', c))"

section \<open>Example values and states\<close>

text \<open>A static integer with the given size word and limbs, and a state with the given
  objects and an empty pool; they name the concrete inputs of the examples below.\<close>

definition static_of :: "int \<Rightarrow> mp_limb_t list \<Rightarrow> integer_union" where
  "static_of sz ls = St \<lparr>mp_alloc = s_alloc, mp_size = sz, m_limbs = ls\<rparr>"

definition dynamic_of :: "int \<Rightarrow> mp_limb_t list \<Rightarrow> integer_union" where
  "dynamic_of sz ls = Dy \<lparr>z_alloc = int (length ls), z_size = sz, z_d = ls\<rparr>"

definition world_of :: "(addr \<Rightarrow> integer_union) \<Rightarrow> world" where
  "world_of h = \<lparr>objs = h, cache = mpz_cache_ctor\<rparr>"

text \<open>Objects 0 to 3 of the division example: \<open>q\<close>, \<open>r\<close>, 7 and -2 with two static limbs.\<close>

definition div_example :: world where
  "div_example =
     world_of ((\<lambda>a. static_of 0 [0, 0])(2 := static_of 1 [7, 0], 3 := static_of (- 1) [2, 0]))"

text \<open>Objects 0 to 2 of the addition example: \<open>r\<close>, \<open>2^127 - 1\<close> and \<open>- 2^127\<close> with two
  static limbs.\<close>

definition add_example :: world where
  "add_example =
     world_of ((\<lambda>a. static_of 0 [0, 0])
       (1 := static_of 2 [18446744073709551615, 9223372036854775807],
        2 := static_of (- 2) [0, 9223372036854775808]))"

text \<open>Objects 0 and 1 of the shift example: \<open>r\<close> and -5 with two static limbs.\<close>

definition shift_example :: world where
  "shift_example = world_of ((\<lambda>a. static_of 0 [0, 0])(1 := static_of (- 1) [5, 0]))"

text \<open>Objects 0 and 1 of the move example: two dynamic integers, 5 and 9.\<close>

definition move_example :: world where
  "move_example = world_of ((\<lambda>a. static_of 0 [0, 0])(0 := dynamic_of 1 [5], 1 := dynamic_of 1 [9]))"

text \<open>Objects 0 to 2 of the overflow example: \<open>r\<close>, \<open>2^127 + 5\<close> and \<open>2^127 + 7\<close> with two
  static limbs.\<close>

definition overflow_example :: world where
  "overflow_example =
     world_of ((\<lambda>a. static_of 0 [0, 0])
       (1 := static_of 2 [5, 9223372036854775808], 2 := static_of 2 [7, 9223372036854775808]))"

text \<open>Objects 0 to 2 of the example with three static limbs: \<open>r\<close>, \<open>2^191 - 1\<close> and
  \<open>- 2^191\<close>, which both fill the three limbs.\<close>

definition full_example :: world where
  "full_example =
     world_of ((\<lambda>a. static_of 0 [0, 0, 0])
       (1 := static_of 3 [18446744073709551615, 18446744073709551615, 9223372036854775807],
        2 := static_of (- 3) [0, 0, 9223372036854775808]))"

section \<open>Limb sequences and the numbers they denote\<close>

lemma limbs_to_nat_bound: "limbs_to_nat xs < 2 ^ (64 * length xs)"
proof (induction xs)
  case Nil
  show ?case by simp
next
  case (Cons x xs)
  have x: "unat x < 2 ^ 64" using unsigned_less [of x] by simp
  have "unat x + 2 ^ 64 * limbs_to_nat xs < 2 ^ 64 + 2 ^ 64 * limbs_to_nat xs"
    using x by simp
  also have "\<dots> = 2 ^ 64 * (limbs_to_nat xs + 1)" by simp
  also have "\<dots> \<le> 2 ^ 64 * 2 ^ (64 * length xs)"
    using Cons.IH by (intro mult_le_mono2) simp
  finally show ?case by (simp add: power_add)
qed

lemma limbs_to_nat_append:
  "limbs_to_nat (xs @ ys) = limbs_to_nat xs + 2 ^ (64 * length xs) * limbs_to_nat ys"
  by (induction xs) (simp_all add: power_add algebra_simps)

lemma limbs_to_nat_replicate_zero [simp]: "limbs_to_nat (replicate n 0) = 0"
  by (induction n) simp_all

lemma length_nat_to_limbs [simp]: "length (nat_to_limbs n v) = n"
  by (induction n arbitrary: v) simp_all

lemma limbs_to_nat_nat_to_limbs: "limbs_to_nat (nat_to_limbs n v) = v mod 2 ^ (64 * n)"
proof (induction n arbitrary: v)
  case 0
  show ?case by simp
next
  case (Suc n)
  have "limbs_to_nat (nat_to_limbs (Suc n) v) = v mod 2 ^ 64 + 2 ^ 64 * ((v div 2 ^ 64) mod 2 ^ (64 * n))"
    by (simp add: Suc.IH unat_of_nat)
  also have "\<dots> = v mod (2 ^ 64 * 2 ^ (64 * n))"
    by (simp add: mod_mult2_eq)
  finally show ?case by (simp add: power_add)
qed

lemma nat_to_limbs_limbs_to_nat: "nat_to_limbs (length xs) (limbs_to_nat xs) = xs"
proof (induction xs)
  case Nil
  show ?case by simp
next
  case (Cons x xs)
  have x: "unat x < 2 ^ 64" using unsigned_less [of x] by simp
  have "(unat x + 2 ^ 64 * limbs_to_nat xs) div 2 ^ 64 = limbs_to_nat xs"
    using x by simp
  moreover have "(word_of_nat (unat x + 2 ^ 64 * limbs_to_nat xs) :: 64 word) = x"
  proof -
    have "(word_of_nat (2 ^ 64 * limbs_to_nat xs) :: 64 word) = 0"
      unfolding word_of_nat_eq_0_iff by simp
    then show ?thesis by (simp only: of_nat_add add_0_right of_nat_unat ucast_id)
  qed
  ultimately show ?case using Cons.IH by simp
qed

lemma limbs_to_nat_top:
  assumes "xs \<noteq> []" "last xs \<noteq> 0"
  shows "2 ^ (64 * (length xs - 1)) \<le> limbs_to_nat xs"
proof -
  from assms(1) obtain ys y where xs: "xs = ys @ [y]" by (metis append_butlast_last_id)
  with assms(2) have "y \<noteq> 0" by simp
  then have "1 \<le> unat y" by (simp add: unat_eq_0 Suc_le_eq unat_gt_0)
  then have "2 ^ (64 * length ys) * 1 \<le> 2 ^ (64 * length ys) * unat y"
    by (intro mult_le_mono2)
  then have "2 ^ (64 * length ys) \<le> limbs_to_nat ys + 2 ^ (64 * length ys) * unat y"
    by (simp add: trans_le_add2)
  then show ?thesis by (simp add: xs limbs_to_nat_append)
qed

lemma limbs_to_nat_take_top:
  assumes "0 < n" "n \<le> length ls" "ls ! (n - 1) \<noteq> 0"
  shows "2 ^ (64 * (n - 1)) \<le> limbs_to_nat (take n ls)"
proof -
  have ne: "take n ls \<noteq> []" using assms by auto
  have "last (take n ls) = take n ls ! (length (take n ls) - 1)"
    using ne by (rule last_conv_nth)
  also have "\<dots> = ls ! (n - 1)"
    using assms by (simp add: min_absorb2)
  finally have "last (take n ls) = ls ! (n - 1)" .
  with limbs_to_nat_top [OF ne] assms show ?thesis by (simp add: min_absorb2)
qed

lemma nlimbs_of_zero [simp]: "nlimbs_of 0 = 0"
  by (simp add: nlimbs_of.simps)

lemma nlimbs_of_pos: "0 < v \<Longrightarrow> 0 < nlimbs_of v"
  by (subst nlimbs_of.simps) simp

lemma nlimbs_of_bound: "v < 2 ^ (64 * nlimbs_of v)"
proof (induction v rule: nlimbs_of.induct)
  case (1 v)
  show ?case
  proof (cases "v = 0")
    case True
    then show ?thesis by simp
  next
    case False
    with 1 have "v div 2 ^ 64 < 2 ^ (64 * nlimbs_of (v div 2 ^ 64))" by simp
    then have "v < 2 ^ 64 * 2 ^ (64 * nlimbs_of (v div 2 ^ 64))"
      by (simp add: less_mult_imp_div_less div_less_iff_less_mult mult.commute)
    with False show ?thesis
      by (subst nlimbs_of.simps) (simp add: power_add)
  qed
qed

lemma mpz_value_mpz_store [simp]: "mpz_value (mpz_store d v) = v"
proof -
  let ?n = "nlimbs_of (nat \<bar>v\<bar>)"
  have "limbs_to_nat (nat_to_limbs ?n (nat \<bar>v\<bar>)) = nat \<bar>v\<bar>"
    using nlimbs_of_bound [of "nat \<bar>v\<bar>"] by (simp add: limbs_to_nat_nat_to_limbs)
  moreover have "v \<noteq> 0 \<Longrightarrow> 0 < ?n" by (intro nlimbs_of_pos) simp
  ultimately show ?thesis
    by (cases "v = 0") (auto simp: mpz_value_def mpz_store_def Let_def abs_mult sgn_mult
      mult_sgn_abs)
qed


section \<open>The invariants and the value denoted\<close>

lemma and_numb_mask [simp]: "x AND GMP_NUMB_MASK = x"
  by (simp add: GMP_NUMB_MASK_def)

lemma valid_static_alloc: "valid_static SSize s \<Longrightarrow> mp_alloc s = s_alloc"
  by (auto simp: valid_static_def dtor_checks_def Let_def split: if_splits)

lemma valid_static_length: "valid_static SSize s \<Longrightarrow> length (m_limbs s) = SSize"
  by (simp add: valid_static_def)

lemma valid_static_asize: "valid_static SSize s \<Longrightarrow> \<bar>mp_size s\<bar> \<le> int SSize"
  by (auto simp: valid_static_def dtor_checks_def Let_def abs_size_def split: if_splits)

lemma valid_static_top:
  "valid_static SSize s \<Longrightarrow> mp_size s \<noteq> 0 \<Longrightarrow> m_limbs s ! (nat \<bar>mp_size s\<bar> - 1) \<noteq> 0"
  by (auto simp: valid_static_def dtor_checks_def Let_def abs_size_def nat_diff_distrib
      split: if_splits)

lemma static_value_zero_iff:
  assumes "valid_static SSize s"
  shows "static_value s = 0 \<longleftrightarrow> mp_size s = 0"
proof (cases "mp_size s = 0")
  case True
  then show ?thesis by (simp add: static_value_def)
next
  case False
  let ?n = "nat \<bar>mp_size s\<bar>"
  have n: "0 < ?n" "?n \<le> length (m_limbs s)"
    using False valid_static_asize [OF assms] valid_static_length [OF assms] by auto
  have "2 ^ (64 * (?n - 1)) \<le> limbs_to_nat (take ?n (m_limbs s))"
    using n valid_static_top [OF assms False] by (intro limbs_to_nat_take_top) auto
  then have "0 < limbs_to_nat (take ?n (m_limbs s))"
    by (meson less_le_trans zero_less_numeral zero_less_power)
  with False show ?thesis by (simp add: static_value_def sgn_if)
qed

lemma mpz_value_zero_iff:
  assumes "valid_mpz d"
  shows "mpz_value d = 0 \<longleftrightarrow> z_size d = 0"
proof (cases "z_size d = 0")
  case True
  then show ?thesis by (simp add: mpz_value_def)
next
  case False
  let ?n = "nat \<bar>z_size d\<bar>"
  have n: "0 < ?n" "?n \<le> length (z_d d)" "z_d d ! (?n - 1) \<noteq> 0"
    using False assms by (auto simp: valid_mpz_def)
  have "2 ^ (64 * (?n - 1)) \<le> limbs_to_nat (take ?n (z_d d))"
    using n by (intro limbs_to_nat_take_top) auto
  then have "0 < limbs_to_nat (take ?n (z_d d))"
    by (meson less_le_trans zero_less_numeral zero_less_power)
  with False show ?thesis by (simp add: mpz_value_def sgn_if)
qed

lemma is_static_St: "valid_static SSize s \<Longrightarrow> is_static (St s)"
  by (simp add: is_static_def first_word_def valid_static_alloc)

lemma is_static_Dy: "valid_mpz d \<Longrightarrow> \<not> is_static (Dy d)"
  by (auto simp: is_static_def first_word_def valid_mpz_def s_alloc_def)

section \<open>A failing kernel writes nothing\<close>

lemma frame_if:
  "fst a \<or> snd a = h \<Longrightarrow> fst b \<or> snd b = h
   \<Longrightarrow> fst (if c then a else b) \<or> snd (if c then a else b) = h"
  by simp

lemma frame_let:
  "(\<And>x. fst (f x) \<or> snd (f x) = h) \<Longrightarrow> fst (Let e f) \<or> snd (Let e f) = h"
  by (simp add: Let_def)

lemma frame_case_prod:
  "(\<And>x y. fst (f x y) \<or> snd (f x y) = h)
   \<Longrightarrow> fst (case_prod f p) \<or> snd (case_prod f p) = h"
  by (cases p) simp

lemma frame_success: "fst (True, x) \<or> snd (True, x) = h"
  by simp

lemma frame_failure: "fst (False, h) \<or> snd (False, h) = h"
  by simp

lemmas frame_rules = frame_if frame_let frame_case_prod frame_success frame_failure

lemma static_add_impl_0_frame:
  "fst (static_add_impl_0 SSize h rop op1 op2 asize1 asize2 sign1 sign2)
   \<or> snd (static_add_impl_0 SSize h rop op1 op2 asize1 asize2 sign1 sign2) = h"
  unfolding static_add_impl_0_def by (intro frame_rules)

lemma static_add_impl_1_frame:
  "fst (static_add_impl_1 h rop op1 op2 asize1 asize2 sign1 sign2)
   \<or> snd (static_add_impl_1 h rop op1 op2 asize1 asize2 sign1 sign2) = h"
  unfolding static_add_impl_1_def by (intro frame_rules)

lemma static_add_impl_2_frame:
  "fst (static_add_impl_2 h rop op1 op2 asize1 asize2 sign1 sign2)
   \<or> snd (static_add_impl_2 h rop op1 op2 asize1 asize2 sign1 sign2) = h"
  unfolding static_add_impl_2_def by (intro frame_rules)

lemma static_addsub_frame:
  "fst (static_addsub AddOrSub SSize h rop op1 op2)
   \<or> snd (static_addsub AddOrSub SSize h rop op1 op2) = h"
proof -
  define asize1_0 where "asize1_0 = mp_size (g_st (h op1))"
  define asize2_0 where
    "asize2_0 = (if AddOrSub then mp_size (g_st (h op2)) else - mp_size (g_st (h op2)))"
  define sign1 :: int where "sign1 = (if asize1_0 < 0 then - 1 else if asize1_0 \<noteq> 0 then 1 else 0)"
  define sign2 :: int where "sign2 = (if asize2_0 < 0 then - 1 else if asize2_0 \<noteq> 0 then 1 else 0)"
  define asize1 where "asize1 = (if asize1_0 < 0 then - asize1_0 else asize1_0)"
  define asize2 where "asize2 = (if asize2_0 < 0 then - asize2_0 else asize2_0)"
  define k where "k = (if static_add_algo SSize = 1
              then static_add_impl_1 h rop op1 op2 asize1 asize2 sign1 sign2
              else if static_add_algo SSize = 2
              then static_add_impl_2 h rop op1 op2 asize1 asize2 sign1 sign2
              else static_add_impl_0 SSize h rop op1 op2 asize1 asize2 sign1 sign2)"
  have eq: "static_addsub AddOrSub SSize h rop op1 op2 =
    (if static_add_algo SSize = 0 \<and> fst k
     then (fst k, (snd k)(rop := St (zero_unused_limbs SSize (g_st (snd k rop)))))
     else (fst k, snd k))"
    by (simp add: static_addsub_def Let_def k_def asize1_def asize2_def sign1_def sign2_def
        asize1_0_def asize2_0_def split: prod.splits)
  have "fst k \<or> snd k = h"
    unfolding k_def
    using static_add_impl_0_frame [of SSize h rop op1 op2 asize1 asize2 sign1 sign2]
      static_add_impl_1_frame [of h rop op1 op2 asize1 asize2 sign1 sign2]
      static_add_impl_2_frame [of h rop op1 op2 asize1 asize2 sign1 sign2]
    by (simp split: if_split)
  then show ?thesis by (auto simp: eq)
qed

text \<open>The same for a kernel with an undefined outcome.\<close>

lemma frame_opt_if:
  "(case a of None \<Rightarrow> True | Some x \<Rightarrow> fst x \<or> snd x = h)
   \<Longrightarrow> (case b of None \<Rightarrow> True | Some x \<Rightarrow> fst x \<or> snd x = h)
   \<Longrightarrow> (case (if c then a else b) of None \<Rightarrow> True | Some x \<Rightarrow> fst x \<or> snd x = h)"
  by simp

lemma frame_opt_let:
  "(\<And>y. case f y of None \<Rightarrow> True | Some x \<Rightarrow> fst x \<or> snd x = h)
   \<Longrightarrow> (case Let e f of None \<Rightarrow> True | Some x \<Rightarrow> fst x \<or> snd x = h)"
  by (simp add: Let_def)

lemma frame_opt_case_prod:
  "(\<And>y z. case f y z of None \<Rightarrow> True | Some x \<Rightarrow> fst x \<or> snd x = h)
   \<Longrightarrow> (case case_prod f p of None \<Rightarrow> True | Some x \<Rightarrow> fst x \<or> snd x = h)"
  by (cases p) simp

lemma frame_opt_none: "(case None of None \<Rightarrow> True | Some x \<Rightarrow> fst x \<or> snd x = h)"
  by simp

lemma frame_opt_some:
  "fst r \<or> snd r = h \<Longrightarrow> (case Some r of None \<Rightarrow> True | Some x \<Rightarrow> fst x \<or> snd x = h)"
  by simp

lemmas frame_opt_rules = frame_opt_if frame_opt_let frame_opt_case_prod frame_opt_none
  frame_opt_some frame_success frame_failure

lemma static_mul_2exp_impl_0_frame:
  "case static_mul_2exp_impl_0 SSize h rop n s of
     None \<Rightarrow> True | Some x \<Rightarrow> fst x \<or> snd x = h"
  unfolding static_mul_2exp_impl_0_def by (intro frame_opt_rules)

text \<open>An input of the general shift kernel on which the source writes outside the array: a
  shift by \<open>2^38\<close> bits is a shift by \<open>2^32\<close> whole limbs, which the conversion to the 32-bit
  size type turns into zero, so that the new size passes the test.\<close>

lemma static_mul_2exp_impl_0_out_of_range:
  "static_mul_2exp_impl_0 3 (objs full_example) 0 1 (2 ^ 38) = None"
  by (simp add: static_mul_2exp_impl_0_def full_example_def world_of_def static_of_def
      limbs_def Let_def GMP_NUMB_BITS_def size_t_of_int_def)

lemma static_mul_2exp_impl_1_frame:
  "fst (static_mul_2exp_impl_1 h rop n s)
   \<or> snd (static_mul_2exp_impl_1 h rop n s) = h"
  unfolding static_mul_2exp_impl_1_def by (intro frame_rules)

lemma static_mul_2exp_impl_2_frame:
  "fst (static_mul_2exp_impl_2 h rop n s)
   \<or> snd (static_mul_2exp_impl_2 h rop n s) = h"
  unfolding static_mul_2exp_impl_2_def by (intro frame_rules)

section \<open>Errors of the promotion and of the division\<close>

lemma mpz_init_nlimbs_error: "mpz_init_nlimbs n = Inl e \<Longrightarrow> e = aborted"
  by (auto simp: mpz_init_nlimbs_def Let_def split: if_splits)

lemma pop_error: "fst (pop c n) = Inl e \<Longrightarrow> e = aborted"
  by (auto simp: pop_def dest: mpz_init_nlimbs_error split: if_splits)

lemma mpz_init_set_cache_error: "fst (mpz_init_set_cache c m) = Inl e \<Longrightarrow> e = aborted"
  using pop_error [of c "mpz_size m" e]
  by (auto simp: mpz_init_set_cache_def mpz_init_cache_def split: prod.splits sum.splits)

lemma promote_error: "fst (promote SSize a n w) = Inl e \<Longrightarrow> e = aborted"
  using pop_error [of "cache w" n e]
    mpz_init_set_cache_error [of "cache w" "get_mpz_view_st SSize (g_st (objs w a))" e]
  by (auto simp: promote_def Let_def mpz_init_cache_def split: prod.splits sum.splits if_splits)

text \<open>Past its two checks the division can only fail in a promotion.\<close>

lemma div_integer_error_aborted:
  assumes "q \<noteq> r" and "sign (objs w op2) \<noteq> 0"
    and "fst (div_integer SSize dd q r op1 op2 w) = Inl e"
  shows "e = aborted"
proof (cases "is_static (objs w q) \<and> is_static (objs w r) \<and> is_static (objs w op1)
        \<and> is_static (objs w op2)")
  case True
  with assms show ?thesis by (simp add: div_integer_def Let_def)
next
  case ns: False
  define p1 where "p1 = (if is_static (objs w q) then promote SSize q 0 w else (Inr (), w))"
  have e1: "fst p1 = Inl e' \<Longrightarrow> e' = aborted" for e'
    using promote_error [of SSize q 0 w e'] by (auto simp: p1_def split: if_splits)
  define p2 where "p2 = (if is_static (objs w r) then promote SSize r 0 (snd p1)
        else (Inr (), snd p1))"
  have e2: "fst p2 = Inl e' \<Longrightarrow> e' = aborted" for e'
    using promote_error [of SSize r 0 "snd p1" e'] by (auto simp: p2_def split: if_splits)
  have "div_integer SSize dd q r op1 op2 w =
        (case p1 of (Inl e, w1) \<Rightarrow> (Inl e, w1)
         | (Inr u, w1) \<Rightarrow>
           (case p2 of (Inl e, w2) \<Rightarrow> (Inl e, w2)
            | (Inr u, w2) \<Rightarrow>
                let (q', r') = mpz_tdiv_qr (g_dy (objs w2 q)) (g_dy (objs w2 r))
                                    (get_mpz_view SSize (objs w2 op1))
                                    (get_mpz_view SSize (objs w2 op2))
                in (Inr (), w2\<lparr>objs := (objs w2)(q := Dy q', r := Dy r')\<rparr>)))"
    using assms(1,2) ns
    by (auto simp: div_integer_def Let_def p1_def p2_def split: prod.splits sum.splits)
  with assms(3) e1 e2 show ?thesis
    by (auto split: prod.splits sum.splits)
qed

lemma sign_zero_iff:
  assumes "valid_integer SSize n"
  shows "sign n = 0 \<longleftrightarrow> integer_value n = 0"
proof (cases n)
  case (St s)
  with assms have "valid_static SSize s" by (simp add: valid_integer_def)
  from static_value_zero_iff [OF this] show ?thesis
    by (simp add: St sign_def size_word_def integer_value_def)
next
  case (Dy d)
  with assms have "valid_mpz d" by (simp add: valid_integer_def)
  from mpz_value_zero_iff [OF this] show ?thesis
    by (simp add: Dy sign_def size_word_def integer_value_def)
qed

lemma static_zero_valid: "valid_static SSize (static_int_ctor SSize)"
  by (simp add: valid_static_def static_int_ctor_def dtor_checks_def abs_size_def
      list_ex_iff in_set_dropD)

lemma static_zero_value: "static_value (static_int_ctor SSize) = 0"
  by (simp add: static_value_def static_int_ctor_def)

lemma is_static_valid:
  "valid_integer SSize u \<Longrightarrow> is_static u \<longleftrightarrow> (\<exists>s. u = St s)"
  by (cases u) (auto simp: valid_integer_def is_static_St is_static_Dy)

lemma is_dynamic_iff: "is_dynamic u \<longleftrightarrow> \<not> is_static u"
  by (simp add: is_dynamic_def is_static_def)

lemmas example_defs = div_example_def add_example_def shift_example_def move_example_def
  overflow_example_def full_example_def world_of_def static_of_def dynamic_of_def s_alloc_def

lemmas heap_defs = limbs_def set_size_def set_limbs_def set_limb_def put_limbs_def

section \<open>Two static limbs\<close>

lemma unat_bound64: "unat (x :: 64 word) < 18446744073709551616"
  using unsigned_less [of x, where 'a = nat] by simp


lemma valid_static_2_limbs:
  assumes "valid_static 2 s"
  obtains l0 l1 where "m_limbs s = [l0, l1]"
proof -
  from assms have "length (m_limbs s) = 2" by (simp add: valid_static_def)
  then have "\<exists>l0 l1. m_limbs s = [l0, l1]"
    by (auto simp: numeral_2_eq_2 length_Suc_conv)
  then show ?thesis using that by blast
qed

lemma valid_static_2_iff:
  assumes "m_limbs s = [l0, l1]"
  shows "valid_static 2 s \<longleftrightarrow>
    mp_alloc s = s_alloc
    \<and> ((mp_size s = 0 \<and> l0 = 0 \<and> l1 = 0) \<or> (\<bar>mp_size s\<bar> = 1 \<and> l0 \<noteq> 0 \<and> l1 = 0)
        \<or> (\<bar>mp_size s\<bar> = 2 \<and> l1 \<noteq> 0))"
proof -
  have a: "abs_size s = \<bar>mp_size s\<bar>" by (simp add: abs_size_def)
  consider "mp_size s = 0" | "\<bar>mp_size s\<bar> = 1" | "\<bar>mp_size s\<bar> = 2" | "\<bar>mp_size s\<bar> > 2"
    by linarith
  then show ?thesis
  proof cases
    case 1
    then show ?thesis
      using assms by (simp add: valid_static_def dtor_checks_def a opt_size_def)
  next
    case 2
    then show ?thesis
      using assms by (auto simp: valid_static_def dtor_checks_def a opt_size_def)
  next
    case 3
    then show ?thesis
      using assms by (auto simp: valid_static_def dtor_checks_def a opt_size_def)
  next
    case 4
    then show ?thesis
      using assms by (auto simp: valid_static_def dtor_checks_def a opt_size_def)
  qed
qed

lemma static_value_2:
  assumes "valid_static 2 s" "m_limbs s = [l0, l1]"
  shows "static_value s = sgn (mp_size s) * int (unat l0 + 2 ^ 64 * unat l1)"
proof -
  from assms valid_static_2_iff [OF assms(2)]
  consider "mp_size s = 0" | "\<bar>mp_size s\<bar> = 1" "l1 = 0" | "\<bar>mp_size s\<bar> = 2"
    by blast
  then show ?thesis
  proof cases
    case 1
    then show ?thesis by (simp add: static_value_def)
  next
    case 2
    then show ?thesis by (simp add: static_value_def assms(2))
  next
    case 3
    then show ?thesis by (simp add: static_value_def assms(2))
  qed
qed







section \<open>Division: the promoted path\<close>

lemma tdiv_trem:
  assumes "b \<noteq> 0"
  shows "tdiv a b * b + trem a b = a" and "\<bar>trem a b\<bar> < \<bar>b\<bar>"
    and "trem a b = 0 \<or> sgn (trem a b) = sgn a"
proof -
  have "tdiv a b * b + trem a b = sgn a * ((\<bar>a\<bar> div \<bar>b\<bar>) * (sgn b * b) + \<bar>a\<bar> mod \<bar>b\<bar>)"
    by (simp add: tdiv_def trem_def algebra_simps)
  also have "sgn b * b = \<bar>b\<bar>" by (simp add: abs_sgn mult.commute)
  also have "(\<bar>a\<bar> div \<bar>b\<bar>) * \<bar>b\<bar> + \<bar>a\<bar> mod \<bar>b\<bar> = \<bar>a\<bar>" by simp
  also have "sgn a * \<bar>a\<bar> = a" by (simp add: mult_sgn_abs)
  finally show "tdiv a b * b + trem a b = a" .
  have m: "0 \<le> \<bar>a\<bar> mod \<bar>b\<bar>" "\<bar>a\<bar> mod \<bar>b\<bar> < \<bar>b\<bar>"
    using assms by simp_all
  then show "\<bar>trem a b\<bar> < \<bar>b\<bar>"
    by (cases "a = 0") (simp_all add: trem_def abs_mult)
  show "trem a b = 0 \<or> sgn (trem a b) = sgn a"
    using m by (cases "\<bar>a\<bar> mod \<bar>b\<bar> = 0") (auto simp: trem_def sgn_mult)
qed

lemma valid_integer_well_stored: "valid_integer SSize u \<Longrightarrow> well_stored SSize u"
  by (cases u) (simp_all add: valid_integer_def well_stored_def valid_mpz_def)

lemma well_stored_is_static:
  "well_stored SSize u \<Longrightarrow> is_static u \<longleftrightarrow> (\<exists>s. u = St s)"
proof (cases u)
  case (St s)
  assume "well_stored SSize u"
  with St show ?thesis by (simp add: well_stored_def is_static_St)
next
  case (Dy d)
  assume "well_stored SSize u"
  with Dy show ?thesis by (simp add: well_stored_def is_static_def first_word_def s_alloc_def)
qed

lemma view_value:
  "well_stored SSize u \<Longrightarrow> mpz_value (get_mpz_view SSize u) = integer_value u"
  by (cases u)
    (auto simp: get_mpz_view_def well_stored_is_static integer_value_def static_value_def
      mpz_value_def get_mpz_view_st_def)

lemma mpz_store_alloc: "0 \<le> z_alloc d \<Longrightarrow> 0 \<le> z_alloc (mpz_store d v)"
  by (simp add: mpz_store_def Let_def)

lemma valid_cache_nth:
  "valid_cache c \<Longrightarrow> i < length c \<Longrightarrow> m \<in> set (c ! i) \<Longrightarrow> 0 \<le> z_alloc m"
  by (auto simp: valid_cache_def list_all_iff)

lemma valid_cache_update:
  assumes "valid_cache c" "\<forall>m\<in>set b. 0 \<le> z_alloc m"
  shows "valid_cache (c[i := b])"
  using assms by (auto simp: valid_cache_def list_all_iff dest!: set_update_subset_insert [THEN subsetD])

lemma pop_ok:
  assumes "valid_cache c" "n \<le> 64"
  shows "\<exists>m c'. pop c n = (Inr m, c') \<and> 0 \<le> z_alloc m \<and> valid_cache c'"
proof (cases "n = 0 \<or> n > max_size \<or> c ! (n - 1) = []")
  case True
  have "mpz_init_nlimbs n = Inr (mpz_init2 n)"
    using assms(2)
    by (simp add: mpz_init_nlimbs_def SIZE_MAX_def GMP_NUMB_BITS_def Let_def)
  moreover have "0 \<le> z_alloc (mpz_init2 n)" by (simp add: mpz_init2_def)
  ultimately show ?thesis using True assms(1) by (simp add: pop_def)
next
  case False
  then have ne: "c ! (n - 1) \<noteq> []" and n: "n - 1 < length c"
    using assms(1) by (auto simp: valid_cache_def)
  have p: "pop c n = (Inr (last (c ! (n - 1))), c[n - 1 := butlast (c ! (n - 1))])"
    using False by (simp add: pop_def)
  have a: "m \<in> set (c ! (n - 1)) \<Longrightarrow> 0 \<le> z_alloc m" for m
    using assms(1) n by (rule valid_cache_nth)
  have "0 \<le> z_alloc (last (c ! (n - 1)))" using ne by (intro a) simp
  moreover have "valid_cache (c[n - 1 := butlast (c ! (n - 1))])"
    using assms(1) a by (intro valid_cache_update) (auto dest: in_set_butlastD)
  ultimately show ?thesis using p by simp
qed

lemma promote_ok:
  assumes ws: "well_stored SSize (objs w a)" and st: "is_static (objs w a)"
    and vc: "valid_cache (cache w)" and ss: "SSize \<le> 64"
  shows "\<exists>w1. promote SSize a 0 w = (Inr (), w1)
    \<and> well_stored SSize (objs w1 a) \<and> \<not> is_static (objs w1 a)
    \<and> integer_value (objs w1 a) = integer_value (objs w a)
    \<and> (\<forall>x. x \<noteq> a \<longrightarrow> objs w1 x = objs w x) \<and> valid_cache (cache w1)"
proof -
  from ws st obtain s where s: "objs w a = St s" "valid_static SSize s"
    by (auto simp: well_stored_is_static well_stored_def)
  let ?v = "get_mpz_view_st SSize s"
  have "mpz_size ?v \<le> 64"
    using valid_static_asize [OF s(2)] ss by (simp add: mpz_size_def get_mpz_view_st_def)
  from pop_ok [OF vc this] obtain m c' where
    p: "pop (cache w) (mpz_size ?v) = (Inr m, c')" "0 \<le> z_alloc m" "valid_cache c'"
    by blast
  have pr: "promote SSize a 0 w = (Inr (), \<lparr>objs = (objs w)(a := Dy (mpz_set m ?v)), cache = c'\<rparr>)"
    using p(1) by (simp add: promote_def s mpz_init_set_cache_def mpz_init_cache_def)
  have al: "0 \<le> z_alloc (mpz_set m ?v)"
    using p(2) by (simp add: mpz_set_def mpz_store_alloc)
  have "mpz_value ?v = static_value s"
    by (simp add: mpz_value_def static_value_def get_mpz_view_st_def)
  then have val: "mpz_value (mpz_set m ?v) = static_value s"
    by (simp add: mpz_set_def)
  show ?thesis
    using pr al val p(3)
    by (simp add: well_stored_def is_static_def first_word_def s_alloc_def integer_value_def s)
qed

lemma maybe_promote_ok:
  assumes ws: "well_stored SSize (objs w a)"
    and vc: "valid_cache (cache w)" and ss: "SSize \<le> 64"
  shows "\<exists>w1. (if is_static (objs w a) then promote SSize a 0 w else (Inr (), w)) = (Inr (), w1)
    \<and> well_stored SSize (objs w1 a) \<and> \<not> is_static (objs w1 a)
    \<and> integer_value (objs w1 a) = integer_value (objs w a)
    \<and> (\<forall>x. x \<noteq> a \<longrightarrow> objs w1 x = objs w x) \<and> valid_cache (cache w1)"
proof (cases "is_static (objs w a)")
  case True
  from promote_ok [OF ws True vc ss] True show ?thesis by simp
next
  case False
  with ws vc show ?thesis by simp
qed

lemma div_integer_dynamic:
  assumes ne: "q \<noteq> r" and nz: "sign (objs w op2) \<noteq> 0"
    and ns: "\<not> (is_static (objs w q) \<and> is_static (objs w r) \<and> is_static (objs w op1)
        \<and> is_static (objs w op2))"
    and wq: "well_stored SSize (objs w q)" and wr: "well_stored SSize (objs w r)"
    and w1: "well_stored SSize (objs w op1)" and w2: "well_stored SSize (objs w op2)"
    and vc: "valid_cache (cache w)" and ss: "SSize \<le> 64"
  shows "\<exists>w'. div_integer SSize dd q r op1 op2 w = (Inr (), w')
    \<and> integer_value (objs w' q)
        = tdiv (integer_value (objs w op1)) (integer_value (objs w op2))
    \<and> integer_value (objs w' r)
        = trem (integer_value (objs w op1)) (integer_value (objs w op2))"
proof -
  from maybe_promote_ok [OF wq vc ss] obtain wa where
    pa: "(if is_static (objs w q) then promote SSize q 0 w else (Inr (), w)) = (Inr (), wa)"
    and qa: "well_stored SSize (objs wa q)" "\<not> is_static (objs wa q)"
      "integer_value (objs wa q) = integer_value (objs w q)"
    and fa: "\<And>x. x \<noteq> q \<Longrightarrow> objs wa x = objs w x" and vca: "valid_cache (cache wa)"
    by blast
  have inva: "well_stored SSize (objs wa x) \<and> integer_value (objs wa x) = integer_value (objs w x)"
    if "well_stored SSize (objs w x)" for x
    using that qa fa [of x] by (cases "x = q") simp_all
  have wra: "well_stored SSize (objs wa r)" using inva [OF wr] by simp
  from maybe_promote_ok [OF wra vca ss] obtain wb where
    pb: "(if is_static (objs wa r) then promote SSize r 0 wa else (Inr (), wa)) = (Inr (), wb)"
    and rb: "well_stored SSize (objs wb r)" "\<not> is_static (objs wb r)"
      "integer_value (objs wb r) = integer_value (objs wa r)"
    and fb: "\<And>x. x \<noteq> r \<Longrightarrow> objs wb x = objs wa x"
    by blast
  have invb: "well_stored SSize (objs wb x) \<and> integer_value (objs wb x) = integer_value (objs w x)"
    if "well_stored SSize (objs w x)" for x
    using inva [OF that] rb fb [of x] by (cases "x = r") simp_all
  have sr: "is_static (objs wa r) = is_static (objs w r)" using fa [of r] ne by simp
  define a where "a = integer_value (objs w op1)"
  define b where "b = integer_value (objs w op2)"
  have va: "mpz_value (get_mpz_view SSize (objs wb op1)) = a"
    using invb [OF w1] by (simp add: view_value a_def)
  have vb: "mpz_value (get_mpz_view SSize (objs wb op2)) = b"
    using invb [OF w2] by (simp add: view_value b_def)
  define q' where "q' = mpz_store (g_dy (objs wb q)) (tdiv a b)"
  define r' where "r' = mpz_store (g_dy (objs wb r)) (trem a b)"
  have nsf: "(is_static (objs w q) \<and> is_static (objs w r) \<and> is_static (objs w op1)
        \<and> is_static (objs w op2)) = False"
    using ns by simp
  have "div_integer SSize dd q r op1 op2 w
      = (Inr (), wb\<lparr>objs := (objs wb)(q := Dy q', r := Dy r')\<rparr>)"
    using ne nz pa pb
    by (simp add: div_integer_def Let_def nsf sr mpz_tdiv_qr_def va vb q'_def r'_def)
  moreover have "integer_value (((objs wb)(q := Dy q', r := Dy r')) q) = tdiv a b"
    using ne by (simp add: integer_value_def q'_def)
  moreover have "integer_value (((objs wb)(q := Dy q', r := Dy r')) r) = trem a b"
    by (simp add: integer_value_def r'_def)
  ultimately show ?thesis by (simp add: a_def b_def)
qed

section \<open>Division: the static kernels\<close>

lemma tdiv_sign_magnitude:
  assumes a: "a = s1 * int A" and b: "b = s2 * int B"
    and s1: "s1 = - 1 \<or> s1 = 0 \<or> s1 = 1" and s2: "s2 = - 1 \<or> s2 = 1"
    and z: "s1 = 0 \<longleftrightarrow> A = 0"
  shows "tdiv a b = (if s1 \<noteq> s2 then - 1 else 1) * int (A div B)"
    and "trem a b = (if s1 = - 1 then - 1 else 1) * int (A mod B)"
proof -
  have abs_a: "\<bar>a\<bar> = int A" using s1 z by (auto simp: a)
  have abs_b: "\<bar>b\<bar> = int B" using s2 by (auto simp: b)
  have sa: "sgn a = s1" using s1 z by (auto simp: a sgn_mult)
  have sb: "B \<noteq> 0 \<Longrightarrow> sgn b = s2" using s2 by (auto simp: b sgn_mult)
  show "tdiv a b = (if s1 \<noteq> s2 then - 1 else 1) * int (A div B)"
  proof (cases "B = 0")
    case True
    then show ?thesis by (simp add: tdiv_def abs_b)
  next
    case False
    show ?thesis
      using s1 s2 z
      by (auto simp: tdiv_def abs_a abs_b sa sb [OF False] zdiv_int)
  qed
  show "trem a b = (if s1 = - 1 then - 1 else 1) * int (A mod B)"
    using s1 z by (auto simp: trem_def abs_a abs_b sa zmod_int)
qed

lemma static_value_signed:
  "static_value (s\<lparr>mp_size := (if neg then - int n else int n), m_limbs := ls\<rparr>)
     = (if neg then - 1 else 1) * int (limbs_to_nat (take n ls))"
  by (cases "n = 0") (simp_all add: static_value_def)

lemma sgn_cases: "sgn (x :: int) = - 1 \<or> sgn x = 0 \<or> sgn x = 1"
  by (simp add: sgn_if)

lemma static_div_unfold:
  "static_div SSize dd h q r op1 op2 =
     (if static_div_algo SSize dd = 1
      then static_div_impl_1 h q r op1 op2 (sgn (mp_size (g_st (h op1))))
             (sgn (mp_size (g_st (h op2))))
      else if static_div_algo SSize dd = 2
      then static_div_impl_2 h q r op1 op2 \<bar>mp_size (g_st (h op1))\<bar> \<bar>mp_size (g_st (h op2))\<bar>
             (sgn (mp_size (g_st (h op1)))) (sgn (mp_size (g_st (h op2))))
      else
        let h1 = static_div_impl_0 SSize h q r op1 op2 \<bar>mp_size (g_st (h op1))\<bar>
                   \<bar>mp_size (g_st (h op2))\<bar>
                   (sgn (mp_size (g_st (h op1)))) (sgn (mp_size (g_st (h op2))));
            h2 = h1(q := St (zero_unused_limbs SSize (g_st (h1 q))))
        in h2(r := St (zero_unused_limbs SSize (g_st (h2 r)))))"
proof -
  have a: "(if x < 0 then - x else x) = \<bar>x\<bar>" for x :: int by simp
  have s: "(if x < 0 then - 1 else if x \<noteq> 0 then 1 else 0) = sgn x" for x :: int
    by (simp add: sgn_if)
  show ?thesis
    by (simp add: static_div_def Let_def a s)
qed

lemma valid_static_1_limbs:
  assumes "valid_static 1 s"
  obtains l0 where "m_limbs s = [l0]"
proof -
  from assms have "length (m_limbs s) = 1" by (simp add: valid_static_def)
  then have "\<exists>l0. m_limbs s = [l0]"
    by (auto simp: length_Suc_conv)
  then show ?thesis using that by blast
qed

lemma valid_static_1_iff:
  assumes "m_limbs s = [l0]"
  shows "valid_static 1 s \<longleftrightarrow>
    mp_alloc s = s_alloc \<and> ((mp_size s = 0 \<and> l0 = 0) \<or> (\<bar>mp_size s\<bar> = 1 \<and> l0 \<noteq> 0))"
proof -
  have a: "abs_size s = \<bar>mp_size s\<bar>" by (simp add: abs_size_def)
  consider "mp_size s = 0" | "\<bar>mp_size s\<bar> = 1" | "\<bar>mp_size s\<bar> > 1"
    by linarith
  then show ?thesis
  proof cases
    case 1
    then show ?thesis
      using assms by (simp add: valid_static_def dtor_checks_def a opt_size_def)
  next
    case 2
    then show ?thesis
      using assms by (auto simp: valid_static_def dtor_checks_def a opt_size_def)
  next
    case 3
    then show ?thesis
      using assms by (auto simp: valid_static_def dtor_checks_def a opt_size_def)
  qed
qed

lemma static_value_1:
  assumes "valid_static 1 s" "m_limbs s = [l0]"
  shows "static_value s = sgn (mp_size s) * int (unat l0)"
  using assms valid_static_1_iff [OF assms(2)]
  by (auto simp: static_value_def)

lemma static_div_impl_1_eq:
  assumes "q \<noteq> r" and "h q = St sq" "h r = St sr"
    and "m_limbs sq = [x]" "m_limbs sr = [y]"
    and "limbs h op1 = [a0]" "limbs h op2 = [b0]"
  shows "static_div_impl_1 h q r op1 op2 sign1 sign2 =
     h(q := St (sq\<lparr>mp_size := (if sign1 \<noteq> sign2 then - int (if a0 div b0 \<noteq> 0 then 1 else 0)
                                else int (if a0 div b0 \<noteq> 0 then 1 else 0)),
                   m_limbs := [a0 div b0]\<rparr>),
       r := St (sr\<lparr>mp_size := (if sign1 = - 1 then - int (if a0 mod b0 \<noteq> 0 then 1 else 0)
                                else int (if a0 mod b0 \<noteq> 0 then 1 else 0)),
                   m_limbs := [a0 mod b0]\<rparr>))"
  using assms
  by (simp add: static_div_impl_1_def Let_def set_size_def set_limb_def set_limbs_def
      limbs_def [of "h(q := u)" for u] limbs_def [of "(h(q := u))(r := v)" for u v])

lemma take_size_1: "limbs_to_nat (take (if l \<noteq> 0 then 1 else 0) [l]) = unat l"
  by simp

lemma static_div_1_values:
  assumes ne: "q \<noteq> r"
    and h: "h q = St sq" "h r = St sr" "h op1 = St s1" "h op2 = St s2"
    and v: "valid_static 1 sq" "valid_static 1 sr" "valid_static 1 s1" "valid_static 1 s2"
    and nz: "mp_size s2 \<noteq> 0"
  shows "integer_value (static_div 1 dd h q r op1 op2 q)
           = tdiv (static_value s1) (static_value s2)
       \<and> integer_value (static_div 1 dd h q r op1 op2 r)
           = trem (static_value s1) (static_value s2)"
proof -
  obtain x where lq: "m_limbs sq = [x]" using v(1) by (rule valid_static_1_limbs)
  obtain y where lr: "m_limbs sr = [y]" using v(2) by (rule valid_static_1_limbs)
  obtain a0 where l1: "m_limbs s1 = [a0]" using v(3) by (rule valid_static_1_limbs)
  obtain b0 where l2: "m_limbs s2 = [b0]" using v(4) by (rule valid_static_1_limbs)
  have lo1: "limbs h op1 = [a0]" and lo2: "limbs h op2 = [b0]"
    by (simp_all add: limbs_def h l1 l2)
  define sign1 where "sign1 = sgn (mp_size s1)"
  define sign2 where "sign2 = sgn (mp_size s2)"
  have a: "static_value s1 = sign1 * int (unat a0)"
    unfolding sign1_def using v(3) l1 by (rule static_value_1)
  have b: "static_value s2 = sign2 * int (unat b0)"
    unfolding sign2_def using v(4) l2 by (rule static_value_1)
  have s1: "sign1 = - 1 \<or> sign1 = 0 \<or> sign1 = 1" unfolding sign1_def by (rule sgn_cases)
  have s2: "sign2 = - 1 \<or> sign2 = 1" using nz by (simp add: sign2_def sgn_if)
  have z: "sign1 = 0 \<longleftrightarrow> unat a0 = 0"
    using v(3) valid_static_1_iff [OF l1] by (auto simp: sign1_def sgn_if unat_eq_0)
  note td = tdiv_sign_magnitude [OF a b s1 s2 z]
  define nq :: nat where "nq = (if a0 div b0 \<noteq> 0 then 1 else 0)"
  define nr :: nat where "nr = (if a0 mod b0 \<noteq> 0 then 1 else 0)"
  have eq: "static_div 1 dd h q r op1 op2 =
     h(q := St (sq\<lparr>mp_size := (if sign1 \<noteq> sign2 then - int nq else int nq),
                   m_limbs := [a0 div b0]\<rparr>),
       r := St (sr\<lparr>mp_size := (if sign1 = - 1 then - int nr else int nr),
                   m_limbs := [a0 mod b0]\<rparr>))"
    unfolding static_div_unfold nq_def nr_def
    using static_div_impl_1_eq [OF ne h(1,2) lq lr lo1 lo2, of sign1 sign2]
    by (simp add: static_div_algo_def h sign1_def sign2_def)
  have tq: "limbs_to_nat (take nq [a0 div b0]) = unat (a0 div b0)"
    by (simp add: nq_def)
  have tr: "limbs_to_nat (take nr [a0 mod b0]) = unat (a0 mod b0)"
    by (simp add: nr_def)
  have hq: "static_div 1 dd h q r op1 op2 q
      = St (sq\<lparr>mp_size := (if sign1 \<noteq> sign2 then - int nq else int nq),
                   m_limbs := [a0 div b0]\<rparr>)"
    unfolding eq using ne by simp
  have hr: "static_div 1 dd h q r op1 op2 r
      = St (sr\<lparr>mp_size := (if sign1 = - 1 then - int nr else int nr),
                   m_limbs := [a0 mod b0]\<rparr>)"
    unfolding eq by simp
  have "integer_value (static_div 1 dd h q r op1 op2 q)
      = (if sign1 \<noteq> sign2 then - 1 else 1) * int (unat (a0 div b0))"
    unfolding hq integer_value_def integer_union.case static_value_signed tq ..
  moreover have "integer_value (static_div 1 dd h q r op1 op2 r)
      = (if sign1 = - 1 then - 1 else 1) * int (unat (a0 mod b0))"
    unfolding hr integer_value_def integer_union.case static_value_signed tr ..
  ultimately show ?thesis
    by (simp add: td unat_div unat_mod)
qed

lemma unat_dlimb:
  fixes lo hi :: "64 word"
  shows "unat ((ucast lo :: 128 word) + push_bit 64 (ucast hi :: 128 word))
           = unat lo + 2 ^ 64 * unat hi"
proof -
  have b: "unat lo < 18446744073709551616" "unat hi < 18446744073709551616"
    by (rule unat_bound64)+
  have l: "unat (ucast lo :: 128 word) = unat lo"
    using b by (simp add: unsigned_ucast_eq take_bit_eq_mod)
  have h0: "unat (ucast hi :: 128 word) = unat hi"
    using b by (simp add: unsigned_ucast_eq take_bit_eq_mod)
  have "unat ((ucast hi :: 128 word) * 18446744073709551616)
      = (unat hi * 18446744073709551616) mod 2 ^ 128"
    by (simp add: unat_word_ariths h0)
  also have "\<dots> = 2 ^ 64 * unat hi" using b by simp
  finally have h: "unat (push_bit 64 (ucast hi :: 128 word)) = 2 ^ 64 * unat hi"
    by (simp add: push_bit_eq_mult)
  show ?thesis
    using b by (simp add: unat_word_ariths l h)
qed

lemma unat_split_dlimb:
  fixes x :: "128 word"
  shows "unat (ucast (x AND ucast (- 1 :: 64 word)) :: 64 word)
           + 2 ^ 64 * unat (ucast (drop_bit 64 x) :: 64 word) = unat x"
proof -
  have m: "(ucast (x AND ucast (- 1 :: 64 word)) :: 64 word) = ucast x"
    by (rule bit_word_eqI) (auto simp: bit_simps)
  have l: "unat (ucast x :: 64 word) = unat x mod 2 ^ 64"
    by (simp add: unsigned_ucast_eq take_bit_eq_mod)
  have bx: "unat x < 2 ^ 128" using unsigned_less [of x, where 'a = nat] by simp
  have "unat (x div 18446744073709551616) = unat x div unat (18446744073709551616 :: 128 word)"
    by (rule unat_div)
  then have "unat (drop_bit 64 x) = unat x div 2 ^ 64"
    by (simp add: drop_bit_eq_div)
  moreover have "unat x div 2 ^ 64 < 2 ^ 64"
    using bx by (simp add: less_mult_imp_div_less)
  ultimately have h: "unat (ucast (drop_bit 64 x) :: 64 word) = unat x div 2 ^ 64"
    by (simp add: unsigned_ucast_eq take_bit_eq_mod)
  show ?thesis unfolding m l h by simp
qed

lemma dlimb_div_value:
  assumes "dlimb_div a0 a1 b0 b1 = (q1, q2, r1, r2)"
  shows "unat q1 + 2 ^ 64 * unat q2
           = (unat a0 + 2 ^ 64 * unat a1) div (unat b0 + 2 ^ 64 * unat b1)"
    and "unat r1 + 2 ^ 64 * unat r2
           = (unat a0 + 2 ^ 64 * unat a1) mod (unat b0 + 2 ^ 64 * unat b1)"
  using assms unat_split_dlimb
  by (auto simp: dlimb_div_def Let_def unat_div unat_mod unat_dlimb)

lemma static_div_impl_2_small:
  assumes "q \<noteq> r" and "h q = St sq" "h r = St sr"
    and "m_limbs sq = [x0, x1]" "m_limbs sr = [y0, y1]"
    and "limbs h op1 = [a0, a1]" "limbs h op2 = [b0, b1]"
    and "asize1 < 2" "asize2 < 2"
  shows "static_div_impl_2 h q r op1 op2 asize1 asize2 sign1 sign2 =
     h(q := St (sq\<lparr>mp_size := (if sign1 \<noteq> sign2 then - int (if a0 div b0 \<noteq> 0 then 1 else 0)
                                else int (if a0 div b0 \<noteq> 0 then 1 else 0)),
                   m_limbs := [a0 div b0, 0]\<rparr>),
       r := St (sr\<lparr>mp_size := (if sign1 = - 1 then - int (if a0 mod b0 \<noteq> 0 then 1 else 0)
                                else int (if a0 mod b0 \<noteq> 0 then 1 else 0)),
                   m_limbs := [a0 mod b0, 0]\<rparr>))"
  using assms
  by (simp add: static_div_impl_2_def Let_def set_size_def set_limb_def set_limbs_def
      limbs_def [of "h(q := u)" for u] limbs_def [of "(h(q := u))(r := v)" for u v])

lemma static_div_impl_2_big:
  assumes "q \<noteq> r" and "h q = St sq" "h r = St sr"
    and "m_limbs sq = [x0, x1]" "m_limbs sr = [y0, y1]"
    and "limbs h op1 = [a0, a1]" "limbs h op2 = [b0, b1]"
    and "\<not> (asize1 < 2 \<and> asize2 < 2)"
    and "dlimb_div a0 a1 b0 b1 = (q1, q2, r1, r2)"
  shows "static_div_impl_2 h q r op1 op2 asize1 asize2 sign1 sign2 =
     h(q := St (sq\<lparr>mp_size :=
                  (if sign1 \<noteq> sign2 then - int (if q2 \<noteq> 0 then 2 else if q1 \<noteq> 0 then 1 else 0)
                   else int (if q2 \<noteq> 0 then 2 else if q1 \<noteq> 0 then 1 else 0)),
                   m_limbs := [q1, q2]\<rparr>),
       r := St (sr\<lparr>mp_size :=
                  (if sign1 = - 1 then - int (if r2 \<noteq> 0 then 2 else if r1 \<noteq> 0 then 1 else 0)
                   else int (if r2 \<noteq> 0 then 2 else if r1 \<noteq> 0 then 1 else 0)),
                   m_limbs := [r1, r2]\<rparr>))"
proof -
  have c: "(asize1 < 2 \<and> asize2 < 2) = False" using assms(8) by simp
  show ?thesis
    using assms(1-7,9)
    by (simp add: static_div_impl_2_def Let_def c set_size_def set_limb_def set_limbs_def
      limbs_def [of "h(q := u)" for u] limbs_def [of "(h(q := u))(r := v)" for u v])
qed

lemma take_size_2:
  "limbs_to_nat (take (if l1 \<noteq> 0 then 2 else if l0 \<noteq> 0 then 1 else 0) [l0, l1])
     = unat l0 + 2 ^ 64 * unat l1"
  by simp

lemma take_size_1_of_2: "limbs_to_nat (take (if l \<noteq> 0 then 1 else 0) [l, 0]) = unat l"
  by simp

lemma static_div_2_values:
  assumes ne: "q \<noteq> r"
    and h: "h q = St sq" "h r = St sr" "h op1 = St s1" "h op2 = St s2"
    and v: "valid_static 2 sq" "valid_static 2 sr" "valid_static 2 s1" "valid_static 2 s2"
    and nz: "mp_size s2 \<noteq> 0"
  shows "integer_value (static_div 2 True h q r op1 op2 q)
           = tdiv (static_value s1) (static_value s2)
       \<and> integer_value (static_div 2 True h q r op1 op2 r)
           = trem (static_value s1) (static_value s2)"
proof -
  obtain x0 x1 where lq: "m_limbs sq = [x0, x1]" using v(1) by (rule valid_static_2_limbs)
  obtain y0 y1 where lr: "m_limbs sr = [y0, y1]" using v(2) by (rule valid_static_2_limbs)
  obtain a0 a1 where l1: "m_limbs s1 = [a0, a1]" using v(3) by (rule valid_static_2_limbs)
  obtain b0 b1 where l2: "m_limbs s2 = [b0, b1]" using v(4) by (rule valid_static_2_limbs)
  have lo1: "limbs h op1 = [a0, a1]" and lo2: "limbs h op2 = [b0, b1]"
    by (simp_all add: limbs_def h l1 l2)
  define sign1 where "sign1 = sgn (mp_size s1)"
  define sign2 where "sign2 = sgn (mp_size s2)"
  define A where "A = unat a0 + 2 ^ 64 * unat a1"
  define B where "B = unat b0 + 2 ^ 64 * unat b1"
  have a: "static_value s1 = sign1 * int A"
    unfolding sign1_def A_def using v(3) l1 by (rule static_value_2)
  have b: "static_value s2 = sign2 * int B"
    unfolding sign2_def B_def using v(4) l2 by (rule static_value_2)
  have s1: "sign1 = - 1 \<or> sign1 = 0 \<or> sign1 = 1" unfolding sign1_def by (rule sgn_cases)
  have s2: "sign2 = - 1 \<or> sign2 = 1" using nz by (simp add: sign2_def sgn_if)
  have c1: "(mp_size s1 = 0 \<and> a0 = 0 \<and> a1 = 0) \<or> (\<bar>mp_size s1\<bar> = 1 \<and> a0 \<noteq> 0 \<and> a1 = 0)
        \<or> (\<bar>mp_size s1\<bar> = 2 \<and> a1 \<noteq> 0)"
    using v(3) by (simp add: valid_static_2_iff [OF l1])
  have c2: "(mp_size s2 = 0 \<and> b0 = 0 \<and> b1 = 0) \<or> (\<bar>mp_size s2\<bar> = 1 \<and> b0 \<noteq> 0 \<and> b1 = 0)
        \<or> (\<bar>mp_size s2\<bar> = 2 \<and> b1 \<noteq> 0)"
    using v(4) by (simp add: valid_static_2_iff [OF l2])
  have z: "sign1 = 0 \<longleftrightarrow> A = 0"
    using c1 by (auto simp: sign1_def A_def sgn_if unat_eq_0)
  note td = tdiv_sign_magnitude [OF a b s1 s2 z]
  have algo: "static_div_algo 2 True = 2" by (simp add: static_div_algo_def)
  show ?thesis
  proof (cases "\<bar>mp_size s1\<bar> < 2 \<and> \<bar>mp_size s2\<bar> < 2")
    case True
    with c1 c2 have hi0: "a1 = 0" "b1 = 0" by auto
    define nq :: nat where "nq = (if a0 div b0 \<noteq> 0 then 1 else 0)"
    define nr :: nat where "nr = (if a0 mod b0 \<noteq> 0 then 1 else 0)"
    have eq: "static_div 2 True h q r op1 op2 =
       h(q := St (sq\<lparr>mp_size := (if sign1 \<noteq> sign2 then - int nq else int nq),
                     m_limbs := [a0 div b0, 0]\<rparr>),
         r := St (sr\<lparr>mp_size := (if sign1 = - 1 then - int nr else int nr),
                     m_limbs := [a0 mod b0, 0]\<rparr>))"
      unfolding static_div_unfold algo nq_def nr_def
      using static_div_impl_2_small [OF ne h(1,2) lq lr lo1 lo2, of "\<bar>mp_size s1\<bar>"
          "\<bar>mp_size s2\<bar>" sign1 sign2] True
      by (simp add: h sign1_def sign2_def)
    have tq: "limbs_to_nat (take nq [a0 div b0, 0]) = unat (a0 div b0)"
      by (simp add: nq_def)
    have tr: "limbs_to_nat (take nr [a0 mod b0, 0]) = unat (a0 mod b0)"
      by (simp add: nr_def)
    have hq: "static_div 2 True h q r op1 op2 q
        = St (sq\<lparr>mp_size := (if sign1 \<noteq> sign2 then - int nq else int nq),
                     m_limbs := [a0 div b0, 0]\<rparr>)"
      unfolding eq using ne by simp
    have hr: "static_div 2 True h q r op1 op2 r
        = St (sr\<lparr>mp_size := (if sign1 = - 1 then - int nr else int nr),
                     m_limbs := [a0 mod b0, 0]\<rparr>)"
      unfolding eq by simp
    have "integer_value (static_div 2 True h q r op1 op2 q)
        = (if sign1 \<noteq> sign2 then - 1 else 1) * int (unat (a0 div b0))"
      unfolding hq integer_value_def integer_union.case static_value_signed tq ..
    moreover have "integer_value (static_div 2 True h q r op1 op2 r)
        = (if sign1 = - 1 then - 1 else 1) * int (unat (a0 mod b0))"
      unfolding hr integer_value_def integer_union.case static_value_signed tr ..
    ultimately show ?thesis
      by (simp add: td unat_div unat_mod A_def B_def hi0)
  next
    case False
    obtain q1 q2 r1 r2 where dd: "dlimb_div a0 a1 b0 b1 = (q1, q2, r1, r2)"
      by (metis prod_cases4)
    define nq :: nat where "nq = (if q2 \<noteq> 0 then 2 else if q1 \<noteq> 0 then 1 else 0)"
    define nr :: nat where "nr = (if r2 \<noteq> 0 then 2 else if r1 \<noteq> 0 then 1 else 0)"
    have eq: "static_div 2 True h q r op1 op2 =
       h(q := St (sq\<lparr>mp_size := (if sign1 \<noteq> sign2 then - int nq else int nq),
                     m_limbs := [q1, q2]\<rparr>),
         r := St (sr\<lparr>mp_size := (if sign1 = - 1 then - int nr else int nr),
                     m_limbs := [r1, r2]\<rparr>))"
      unfolding static_div_unfold algo nq_def nr_def
      using static_div_impl_2_big [OF ne h(1,2) lq lr lo1 lo2 False dd, of sign1 sign2]
      by (simp add: h sign1_def sign2_def)
    have tq: "limbs_to_nat (take nq [q1, q2]) = unat q1 + 2 ^ 64 * unat q2"
      by (simp add: nq_def)
    have tr: "limbs_to_nat (take nr [r1, r2]) = unat r1 + 2 ^ 64 * unat r2"
      by (simp add: nr_def)
    have hq: "static_div 2 True h q r op1 op2 q
        = St (sq\<lparr>mp_size := (if sign1 \<noteq> sign2 then - int nq else int nq),
                     m_limbs := [q1, q2]\<rparr>)"
      unfolding eq using ne by simp
    have hr: "static_div 2 True h q r op1 op2 r
        = St (sr\<lparr>mp_size := (if sign1 = - 1 then - int nr else int nr),
                     m_limbs := [r1, r2]\<rparr>)"
      unfolding eq by simp
    have "integer_value (static_div 2 True h q r op1 op2 q)
        = (if sign1 \<noteq> sign2 then - 1 else 1) * int (A div B)"
      unfolding hq integer_value_def integer_union.case static_value_signed tq
        dlimb_div_value(1) [OF dd] A_def B_def ..
    moreover have "integer_value (static_div 2 True h q r op1 op2 r)
        = (if sign1 = - 1 then - 1 else 1) * int (A mod B)"
      unfolding hr integer_value_def integer_union.case static_value_signed tr
        dlimb_div_value(2) [OF dd] A_def B_def ..
    ultimately show ?thesis
      by (simp add: td)
  qed
qed
subsection \<open>The general static division\<close>

lemma strip_size_value:
  "n \<le> length ls \<Longrightarrow> limbs_to_nat (take (strip_size ls n) ls) = limbs_to_nat (take n ls)"
proof (induction n)
  case 0
  show ?case by simp
next
  case (Suc i)
  then have i: "i < length ls" by simp
  have t: "take (Suc i) ls = take i ls @ [ls ! i]" using i by (rule take_Suc_conv_app_nth)
  show ?case
  proof (cases "ls ! i = 0")
    case True
    have "limbs_to_nat (take (Suc i) ls) = limbs_to_nat (take i ls)"
      unfolding t by (simp add: limbs_to_nat_append True)
    with Suc True show ?thesis by simp
  next
    case False
    then show ?thesis by simp
  qed
qed

lemma take_write_limbs:
  "length xs \<le> length arr \<Longrightarrow> take (length xs) (write_limbs arr 0 xs) = xs"
  by (simp add: write_limbs_def)

lemma length_write_limbs: "length xs \<le> length arr \<Longrightarrow> length (write_limbs arr 0 xs) = length arr"
  by (simp add: write_limbs_def)

lemma static_value_zero_unused: "static_value (zero_unused_limbs SSize s) = static_value s"
proof -
  have a: "nat (abs_size s) = nat \<bar>mp_size s\<bar>" by (simp add: abs_size_def)
  have "take k (write_limbs arr k xs) = take k arr" for k and arr xs :: "mp_limb_t list"
    by (cases "k \<le> length arr") (simp_all add: write_limbs_def min_def)
  then show ?thesis
    by (simp add: static_value_def zero_unused_limbs_def a)
qed

lemma zero_unused_post:
  assumes "q \<noteq> r"
  shows "integer_value (((H(q := St (zero_unused_limbs SSize (g_st (H q)))))
            (r := St (zero_unused_limbs SSize
                        (g_st ((H(q := St (zero_unused_limbs SSize (g_st (H q))))) r))))) q)
          = static_value (g_st (H q))"
    and "integer_value (((H(q := St (zero_unused_limbs SSize (g_st (H q)))))
            (r := St (zero_unused_limbs SSize
                        (g_st ((H(q := St (zero_unused_limbs SSize (g_st (H q))))) r))))) r)
          = static_value (g_st (H r))"
  using assms by (simp_all add: integer_value_def static_value_zero_unused)

lemma div_bound:
  fixes A B :: nat
  assumes "A < 2 ^ (64 * n1)" "2 ^ (64 * (n2 - 1)) \<le> B" "0 < n2" "n2 \<le> n1"
  shows "A div B < 2 ^ (64 * (n1 - n2 + 1))"
proof -
  have e: "64 * n1 = 64 * (n2 - 1) + 64 * (n1 - n2 + 1)" using assms(3,4) by simp
  have "A < 2 ^ (64 * (n2 - 1)) * 2 ^ (64 * (n1 - n2 + 1))"
    using assms(1) unfolding e power_add .
  also have "\<dots> \<le> B * 2 ^ (64 * (n1 - n2 + 1))"
    using assms(2) by (rule mult_le_mono1)
  finally have "A < 2 ^ (64 * (n1 - n2 + 1)) * B" by (simp add: mult.commute)
  then show ?thesis by (rule less_mult_imp_div_less)
qed

lemma static_div_impl_0_small:
  assumes "q \<noteq> r" "asize2 > asize1"
  shows "static_div_impl_0 SSize h q r op1 op2 asize1 asize2 sign1 sign2 r = St (g_st (h op1))"
    and "mp_size (g_st (static_div_impl_0 SSize h q r op1 op2 asize1 asize2 sign1 sign2 q)) = 0"
  using assms by (simp_all add: static_div_impl_0_def Let_def set_size_def)

lemma static_div_impl_0_one:
  assumes "q \<noteq> r" and "h q = St sq" "h r = St sr"
    and "\<not> asize2 > asize1" "asize2 = 1"
    and "Lq = write_limbs (m_limbs sq) 0
                (snd (mpn_divrem_1 (take (nat asize1) (limbs h op1)) (limbs h op2 ! 0)))"
    and "Lr = (m_limbs sr)[0 := fst (mpn_divrem_1 (take (nat asize1) (limbs h op1))
                (limbs h op2 ! 0))]"
  shows "static_div_impl_0 SSize h q r op1 op2 asize1 asize2 sign1 sign2 =
     h(q := St (sq\<lparr>m_limbs := Lq,
                   mp_size := (if sign1 \<noteq> sign2 then - int (strip_size Lq (nat asize1))
                                else int (strip_size Lq (nat asize1)))\<rparr>),
       r := St (sr\<lparr>m_limbs := Lr,
                   mp_size := (if sign1 = - 1 then - int (strip_size Lr 1)
                                else int (strip_size Lr 1))\<rparr>))"
proof -
  have c: "(asize1 < 1) = False" using assms(4,5) by simp
  have o: "nat (asize1 - 1 + 1) = nat asize1" by simp
  show ?thesis
    unfolding static_div_impl_0_def assms(5) Let_def case_prod_beta
    using assms(1-3)
    by (simp add: assms(6,7) c o heap_defs)
qed

lemma static_div_impl_0_gen:
  assumes "q \<noteq> r" and "h q = St sq" "h r = St sr"
    and "\<not> asize2 > asize1" "asize2 \<noteq> 1"
    and "Lq = write_limbs (m_limbs sq) 0
                (fst (mpn_tdiv_qr (take (nat asize1) (limbs h op1))
                        (take (nat asize2) (limbs h op2))))"
    and "Lr = write_limbs (m_limbs sr) 0
                (snd (mpn_tdiv_qr (take (nat asize1) (limbs h op1))
                        (take (nat asize2) (limbs h op2))))"
  shows "static_div_impl_0 SSize h q r op1 op2 asize1 asize2 sign1 sign2 =
     h(q := St (sq\<lparr>m_limbs := Lq,
                   mp_size := (if sign1 \<noteq> sign2
                                then - int (strip_size Lq (nat (asize1 - asize2 + 1)))
                                else int (strip_size Lq (nat (asize1 - asize2 + 1))))\<rparr>),
       r := St (sr\<lparr>m_limbs := Lr,
                   mp_size := (if sign1 = - 1 then - int (strip_size Lr (nat asize2))
                                else int (strip_size Lr (nat asize2)))\<rparr>))"
proof -
  have c: "(asize2 > asize1) = False" "(asize2 = 1) = False" using assms(4,5) by simp_all
  show ?thesis
    unfolding static_div_impl_0_def c if_False Let_def case_prod_beta
    using assms(1-3)
    by (simp add: assms(6,7) heap_defs)
qed

lemma static_value_sized:
  "static_value (s\<lparr>m_limbs := ls, mp_size := (if neg then - int n else int n)\<rparr>)
     = (if neg then - 1 else 1) * int (limbs_to_nat (take n ls))"
  by (cases "n = 0") (simp_all add: static_value_def)

lemma static_div_0_values:
  assumes ne: "q \<noteq> r"
    and h: "h q = St sq" "h r = St sr" "h op1 = St s1" "h op2 = St s2"
    and v: "valid_static SSize sq" "valid_static SSize sr" "valid_static SSize s1"
      "valid_static SSize s2"
    and nz: "mp_size s2 \<noteq> 0"
    and algo: "static_div_algo SSize dd = 0"
  shows "integer_value (static_div SSize dd h q r op1 op2 q)
           = tdiv (static_value s1) (static_value s2)
       \<and> integer_value (static_div SSize dd h q r op1 op2 r)
           = trem (static_value s1) (static_value s2)"
proof -
  define n1 where "n1 = nat \<bar>mp_size s1\<bar>"
  define n2 where "n2 = nat \<bar>mp_size s2\<bar>"
  define L1 where "L1 = m_limbs s1"
  define L2 where "L2 = m_limbs s2"
  define sign1 where "sign1 = sgn (mp_size s1)"
  define sign2 where "sign2 = sgn (mp_size s2)"
  define A where "A = limbs_to_nat (take n1 L1)"
  define B where "B = limbs_to_nat (take n2 L2)"
  have len: "length (m_limbs sq) = SSize" "length (m_limbs sr) = SSize" "length L1 = SSize"
    "length L2 = SSize"
    using v by (simp_all add: valid_static_length L1_def L2_def)
  have n1: "n1 \<le> SSize" using valid_static_asize [OF v(3)] by (simp add: n1_def)
  have n2: "n2 \<le> SSize" using valid_static_asize [OF v(4)] by (simp add: n2_def)
  have n2p: "0 < n2" using nz by (simp add: n2_def)
  have lo: "limbs h op1 = L1" "limbs h op2 = L2" by (simp_all add: limbs_def h L1_def L2_def)
  have a: "static_value s1 = sign1 * int A"
    by (simp add: static_value_def sign1_def A_def n1_def L1_def)
  have b: "static_value s2 = sign2 * int B"
    by (simp add: static_value_def sign2_def B_def n2_def L2_def)
  have s1: "sign1 = - 1 \<or> sign1 = 0 \<or> sign1 = 1" unfolding sign1_def by (rule sgn_cases)
  have s2: "sign2 = - 1 \<or> sign2 = 1" using nz by (simp add: sign2_def sgn_if)
  have z: "sign1 = 0 \<longleftrightarrow> A = 0"
  proof
    assume "sign1 = 0"
    then have "mp_size s1 = 0" by (simp add: sign1_def sgn_if split: if_splits)
    then show "A = 0" by (simp add: A_def n1_def)
  next
    assume "A = 0"
    then have "static_value s1 = 0" by (simp add: a)
    then have "mp_size s1 = 0" using static_value_zero_iff [OF v(3)] by simp
    then show "sign1 = 0" by (simp add: sign1_def)
  qed
  note td = tdiv_sign_magnitude [OF a b s1 s2 z]
  have top: "L2 ! (n2 - 1) \<noteq> 0"
    using valid_static_top [OF v(4) nz] by (simp add: L2_def n2_def)
  have Bge: "2 ^ (64 * (n2 - 1)) \<le> B"
    unfolding B_def using n2p n2 top by (intro limbs_to_nat_take_top) (simp_all add: len)
  have lD1: "length (take n1 L1) = n1" using n1 by (simp add: len)
  have lD2: "length (take n2 L2) = n2" using n2 by (simp add: len)
  have Alt: "A < 2 ^ (64 * n1)"
    using limbs_to_nat_bound [of "take n1 L1"] unfolding lD1 A_def .
  have Blt: "B < 2 ^ (64 * n2)"
    using limbs_to_nat_bound [of "take n2 L2"] unfolding lD2 B_def .
  have Bpos: "0 < B" using Bge by (metis less_le_trans zero_less_numeral zero_less_power)
  define H where "H = static_div_impl_0 SSize h q r op1 op2 \<bar>mp_size s1\<bar> \<bar>mp_size s2\<bar>
        sign1 sign2"
  have fin: "static_div SSize dd h q r op1 op2 =
      (H(q := St (zero_unused_limbs SSize (g_st (H q)))))
        (r := St (zero_unused_limbs SSize
                    (g_st ((H(q := St (zero_unused_limbs SSize (g_st (H q))))) r))))"
    unfolding static_div_unfold algo H_def sign1_def sign2_def by (simp add: Let_def h)
  have vq: "integer_value (static_div SSize dd h q r op1 op2 q) = static_value (g_st (H q))"
    unfolding fin using ne by (rule zero_unused_post(1))
  have vr: "integer_value (static_div SSize dd h q r op1 op2 r) = static_value (g_st (H r))"
    unfolding fin using ne by (rule zero_unused_post(2))
  show ?thesis
  proof (cases "\<bar>mp_size s2\<bar> > \<bar>mp_size s1\<bar>")
    case True
    then have lt: "n1 < n2" by (simp add: n1_def n2_def)
    have p: "(2::nat) ^ (64 * n1) \<le> 2 ^ (64 * (n2 - 1))"
      using lt by (intro power_increasing) simp_all
    have AB: "A < B"
      using Alt p Bge by (meson less_le_trans)
    have hr: "H r = St s1"
      unfolding H_def using static_div_impl_0_small(1) [OF ne True] by (simp add: h)
    have hq: "mp_size (g_st (H q)) = 0"
      unfolding H_def using ne True by (rule static_div_impl_0_small(2))
    have "static_value (g_st (H q)) = 0" by (simp add: static_value_def hq)
    moreover have "static_value (g_st (H r)) = sign1 * int A" by (simp add: hr a)
    ultimately show ?thesis
      unfolding vq vr td using AB s1 z by auto
  next
    case False
    then have le: "n2 \<le> n1" by (simp add: n1_def n2_def)
    have qb: "A div B < 2 ^ (64 * (n1 - n2 + 1))"
      using Alt Bge n2p le by (rule div_bound)
    have rb: "A mod B < 2 ^ (64 * n2)"
      using Blt Bpos by (meson mod_less_divisor less_trans)
    show ?thesis
    proof (cases "\<bar>mp_size s2\<bar> = 1")
      case one: True
      then have n21: "n2 = 1" by (simp add: n2_def)
      have L2ne: "L2 \<noteq> []" using n2 n2p len by auto
      have Bu: "B = unat (L2 ! 0)"
        using L2ne by (cases L2) (simp_all add: B_def n21)
      define qs where "qs = nat_to_limbs n1 (A div B)"
      define rem :: mp_limb_t where "rem = word_of_nat (A mod B)"
      have dv: "mpn_divrem_1 (take n1 L1) (L2 ! 0) = (rem, qs)"
        unfolding mpn_divrem_1_def lD1 qs_def rem_def Bu A_def ..
      define Lq where "Lq = write_limbs (m_limbs sq) 0 qs"
      define Lr where "Lr = (m_limbs sr)[0 := rem]"
      have eq: "H =
         h(q := St (sq\<lparr>m_limbs := Lq,
                   mp_size := (if sign1 \<noteq> sign2 then - int (strip_size Lq (nat \<bar>mp_size s1\<bar>))
                                else int (strip_size Lq (nat \<bar>mp_size s1\<bar>)))\<rparr>),
           r := St (sr\<lparr>m_limbs := Lr,
                   mp_size := (if sign1 = - 1 then - int (strip_size Lr 1)
                                else int (strip_size Lr 1))\<rparr>))"
        unfolding H_def
        by (rule static_div_impl_0_one [OF ne h(1,2) False one])
           (simp_all add: lo dv Lq_def Lr_def n1_def [symmetric])
      have lqs: "length qs = n1" by (simp add: qs_def)
      have lLq: "length Lq = SSize"
        unfolding Lq_def using n1 by (simp add: length_write_limbs lqs len)
      have tq: "take n1 Lq = qs"
        using take_write_limbs [of qs "m_limbs sq"] n1 by (simp add: lqs len Lq_def)
      have "limbs_to_nat (take (strip_size Lq n1) Lq) = limbs_to_nat (take n1 Lq)"
        using n1 by (intro strip_size_value) (simp add: lLq)
      also have "\<dots> = A div B"
      proof -
        have "A div B < 2 ^ (64 * n1)"
          using Alt div_le_dividend [of A B] by (rule le_less_trans [rotated])
        then show ?thesis
          unfolding tq qs_def limbs_to_nat_nat_to_limbs by simp
      qed
      finally have valq: "limbs_to_nat (take (strip_size Lq n1) Lq) = A div B" .
      have srne: "m_limbs sr \<noteq> []" using len n2 n2p by auto
      have t1: "take 1 Lr = [rem]"
        using srne by (cases "m_limbs sr") (simp_all add: Lr_def)
      have "A mod B < 2 ^ 64" using rb n21 by simp
      then have ur: "unat rem = A mod B"
        by (simp add: rem_def unat_of_nat)
      have "limbs_to_nat (take (strip_size Lr 1) Lr) = limbs_to_nat (take 1 Lr)"
        using srne by (intro strip_size_value) (simp add: Lr_def Suc_le_eq)
      then have valr: "limbs_to_nat (take (strip_size Lr 1) Lr) = A mod B"
        unfolding t1 by (simp add: ur)
      have hq: "H q = St (sq\<lparr>m_limbs := Lq,
                   mp_size := (if sign1 \<noteq> sign2 then - int (strip_size Lq n1)
                                else int (strip_size Lq n1))\<rparr>)"
        unfolding eq n1_def using ne by simp
      have hr: "H r = St (sr\<lparr>m_limbs := Lr,
                   mp_size := (if sign1 = - 1 then - int (strip_size Lr 1)
                                else int (strip_size Lr 1))\<rparr>)"
        unfolding eq by simp
      show ?thesis
        unfolding vq vr hq hr integer_union.sel static_value_sized valq valr td by simp
    next
      case gen: False
      define qs where "qs = nat_to_limbs (n1 - n2 + 1) (A div B)"
      define rs where "rs = nat_to_limbs n2 (A mod B)"
      have dv: "mpn_tdiv_qr (take n1 L1) (take n2 L2) = (qs, rs)"
        unfolding mpn_tdiv_qr_def lD1 lD2 qs_def rs_def A_def B_def ..
      define Lq where "Lq = write_limbs (m_limbs sq) 0 qs"
      define Lr where "Lr = write_limbs (m_limbs sr) 0 rs"
      have nn: "nat (\<bar>mp_size s1\<bar> - \<bar>mp_size s2\<bar> + 1) = n1 - n2 + 1"
        using False by (simp add: n1_def n2_def nat_diff_distrib nat_add_distrib)
      have eq: "H =
         h(q := St (sq\<lparr>m_limbs := Lq,
                   mp_size := (if sign1 \<noteq> sign2
                      then - int (strip_size Lq (nat (\<bar>mp_size s1\<bar> - \<bar>mp_size s2\<bar> + 1)))
                      else int (strip_size Lq (nat (\<bar>mp_size s1\<bar> - \<bar>mp_size s2\<bar> + 1))))\<rparr>),
           r := St (sr\<lparr>m_limbs := Lr,
                   mp_size := (if sign1 = - 1 then - int (strip_size Lr (nat \<bar>mp_size s2\<bar>))
                                else int (strip_size Lr (nat \<bar>mp_size s2\<bar>)))\<rparr>))"
        unfolding H_def
        by (rule static_div_impl_0_gen [OF ne h(1,2) False gen])
           (simp_all add: lo dv Lq_def Lr_def n1_def [symmetric] n2_def [symmetric])
      have lqs: "length qs = n1 - n2 + 1" by (simp add: qs_def)
      have lrs: "length rs = n2" by (simp add: rs_def)
      have k: "n1 - n2 + 1 \<le> SSize" using n1 n2p le by simp
      have lLq: "length Lq = SSize"
        unfolding Lq_def using k by (simp add: length_write_limbs lqs len)
      have lLr: "length Lr = SSize"
        unfolding Lr_def using n2 by (simp add: length_write_limbs lrs len)
      have tq: "take (n1 - n2 + 1) Lq = qs"
        using take_write_limbs [of qs "m_limbs sq"] k by (simp add: lqs len Lq_def)
      have tr: "take n2 Lr = rs"
        using take_write_limbs [of rs "m_limbs sr"] n2 by (simp add: lrs len Lr_def)
      have "limbs_to_nat (take (strip_size Lq (n1 - n2 + 1)) Lq)
          = limbs_to_nat (take (n1 - n2 + 1) Lq)"
        using k by (intro strip_size_value) (simp add: lLq)
      also have "\<dots> = A div B"
        unfolding tq qs_def limbs_to_nat_nat_to_limbs using qb by simp
      finally have valq: "limbs_to_nat (take (strip_size Lq (n1 - n2 + 1)) Lq) = A div B" .
      have "limbs_to_nat (take (strip_size Lr n2) Lr) = limbs_to_nat (take n2 Lr)"
        using n2 by (intro strip_size_value) (simp add: lLr)
      also have "\<dots> = A mod B"
        unfolding tr rs_def limbs_to_nat_nat_to_limbs using rb by simp
      finally have valr: "limbs_to_nat (take (strip_size Lr n2) Lr) = A mod B" .
      have hq: "H q = St (sq\<lparr>m_limbs := Lq,
                   mp_size := (if sign1 \<noteq> sign2 then - int (strip_size Lq (n1 - n2 + 1))
                                else int (strip_size Lq (n1 - n2 + 1)))\<rparr>)"
        unfolding eq nn using ne by simp
      have hr: "H r = St (sr\<lparr>m_limbs := Lr,
                   mp_size := (if sign1 = - 1 then - int (strip_size Lr n2)
                                else int (strip_size Lr n2))\<rparr>)"
        unfolding eq n2_def by simp
      show ?thesis
        unfolding vq vr hq hr integer_union.sel static_value_sized valq valr td by simp
    qed
  qed
qed

lemma div_integer_values:
  assumes ss: "SSize \<le> 64"
    and vq: "valid_integer SSize (objs w q)" and vr: "valid_integer SSize (objs w r)"
    and v1: "valid_integer SSize (objs w op1)" and v2: "valid_integer SSize (objs w op2)"
    and vc: "valid_cache (cache w)"
    and ne: "q \<noteq> r" and nz: "integer_value (objs w op2) \<noteq> 0"
  shows "\<exists>w'. div_integer SSize dd q r op1 op2 w = (Inr (), w')
    \<and> integer_value (objs w' q)
        = tdiv (integer_value (objs w op1)) (integer_value (objs w op2))
    \<and> integer_value (objs w' r)
        = trem (integer_value (objs w op1)) (integer_value (objs w op2))"
proof -
  have sg: "sign (objs w op2) \<noteq> 0" using sign_zero_iff [OF v2] nz by simp
  show ?thesis
  proof (cases "is_static (objs w q) \<and> is_static (objs w r) \<and> is_static (objs w op1)
        \<and> is_static (objs w op2)")
    case True
    obtain sq where hq: "objs w q = St sq" using True is_static_valid [OF vq] by auto
    obtain sr where hr: "objs w r = St sr" using True is_static_valid [OF vr] by auto
    obtain s1 where h1: "objs w op1 = St s1" using True is_static_valid [OF v1] by auto
    obtain s2 where h2: "objs w op2 = St s2" using True is_static_valid [OF v2] by auto
    have v: "valid_static SSize sq" "valid_static SSize sr" "valid_static SSize s1"
      "valid_static SSize s2"
      using vq vr v1 v2 by (simp_all add: valid_integer_def hq hr h1 h2)
    have nz2: "mp_size s2 \<noteq> 0"
      using nz static_value_zero_iff [OF v(4)] by (simp add: integer_value_def h2)
    have iv: "integer_value (objs w op1) = static_value s1"
      "integer_value (objs w op2) = static_value s2"
      by (simp_all add: integer_value_def h1 h2)
    have eq: "div_integer SSize dd q r op1 op2 w
        = (Inr (), w\<lparr>objs := static_div SSize dd (objs w) q r op1 op2\<rparr>)"
      using ne sg True by (simp add: div_integer_def Let_def)
    have vals: "integer_value (static_div SSize dd (objs w) q r op1 op2 q)
           = tdiv (static_value s1) (static_value s2)
       \<and> integer_value (static_div SSize dd (objs w) q r op1 op2 r)
           = trem (static_value s1) (static_value s2)"
    proof (cases "SSize = 1")
      case True
      show ?thesis
        unfolding True
        using ne hq hr h1 h2 v [unfolded True] nz2 by (rule static_div_1_values)
    next
      case n1: False
      show ?thesis
      proof (cases "SSize = 2 \<and> dd")
        case True
        then have a: "SSize = 2" and b: "dd = True" by simp_all
        show ?thesis
          unfolding a b
          using ne hq hr h1 h2 v [unfolded a] nz2 by (rule static_div_2_values)
      next
        case False
        with n1 have "static_div_algo SSize dd = 0" by (simp add: static_div_algo_def)
        with ne hq hr h1 h2 v nz2 show ?thesis by (rule static_div_0_values)
      qed
    qed
    show ?thesis
      unfolding eq iv using vals by simp
  next
    case False
    show ?thesis
      using ne sg False valid_integer_well_stored [OF vq] valid_integer_well_stored [OF vr]
        valid_integer_well_stored [OF v1] valid_integer_well_stored [OF v2] vc ss
      by (rule div_integer_dynamic)
  qed
qed

section \<open>Conversion to bool\<close>

text \<open>C10: for every integer value that satisfies the invariants of its storage class,
  static or dynamic, of either sign and of any number of limbs, the conversion to \<open>bool\<close>
  returns normally (it has no throwing path) and returns true exactly when the integer
  denoted is not zero.\<close>

theorem operator_bool_correct:
  "valid_integer SSize n \<Longrightarrow> operator_bool n = Inr (integer_value n \<noteq> 0)"
proof (cases n)
  case (St s)
  assume "valid_integer SSize n"
  with St have v: "valid_static SSize s" by (simp add: valid_integer_def)
  show ?thesis
    using static_value_zero_iff [OF v] is_static_St [OF v]
    by (simp add: St operator_bool_def conversion_impl_bool_st_def integer_value_def)
next
  case (Dy d)
  assume "valid_integer SSize n"
  with Dy have v: "valid_mpz d" by (simp add: valid_integer_def)
  show ?thesis
    using mpz_value_zero_iff [OF v] is_static_Dy [OF v]
    by (simp add: Dy operator_bool_def conversion_impl_bool_dy_def integer_value_def mpz_sgn_def)
qed

theorem operator_bool_correct_witness:
  "valid_integer 2 (static_of (- 2) [0, 5])
   \<and> operator_bool (static_of (- 2) [0, 5]) = Inr True
   \<and> valid_integer 2 (dynamic_of 0 [0, 0, 0])
   \<and> operator_bool (dynamic_of 0 [0, 0, 0]) = Inr False"
proof -
  have h1: "valid_integer 2 (static_of (- 2) [0, 5])"
    by (simp add: static_of_def valid_integer_def valid_static_def dtor_checks_def abs_size_def
        opt_size_def s_alloc_def)
  have h2: "valid_integer 2 (dynamic_of 0 [0, 0, 0])"
    by (simp add: dynamic_of_def valid_integer_def valid_mpz_def)
  have v1: "integer_value (static_of (- 2) [0, 5]) \<noteq> 0"
    by (simp add: static_of_def integer_value_def static_value_def)
  have v2: "integer_value (dynamic_of 0 [0, 0, 0]) = 0"
    by (simp add: dynamic_of_def integer_value_def mpz_value_def)
  show ?thesis
    using h1 h2 operator_bool_correct [OF h1] operator_bool_correct [OF h2] v1 v2 by simp
qed

section \<open>Equality\<close>

text \<open>C3: on two static operands \<open>operator==\<close> compares the size words and then the active
  limbs masked with the bit count 64 instead of the mask of the value bits, so only bit 6
  of each limb is compared: the static integers 1 and 2 (two limbs of static storage)
  compare equal although they denote different integers.\<close>

theorem operator_eq_static_one_two:
  "operator_eq 2 (static_of 1 [1, 0]) (static_of 1 [2, 0]) = True
   \<and> valid_integer 2 (static_of 1 [1, 0]) \<and> valid_integer 2 (static_of 1 [2, 0])
   \<and> integer_value (static_of 1 [1, 0]) = 1 \<and> integer_value (static_of 1 [2, 0]) = 2"
  by (simp add: operator_eq_def static_of_def is_static_def first_word_def abs_size_def
      std_equal_def GMP_NUMB_BITS_def valid_integer_def valid_static_def dtor_checks_def
      opt_size_def s_alloc_def integer_value_def static_value_def)

section \<open>String conversion\<close>

lemma to_string_ignores_base:
  "2 \<le> base \<Longrightarrow> base \<le> 62 \<Longrightarrow> to_string SSize n base = to_string SSize n 10"
  by (simp add: to_string_def)

text \<open>C4: \<open>to_string\<close> checks its base and then converts in base 10 whatever the base is:
  for the static integer 2 and base 2 it returns \<open>2\<close>, where the base-2 representation
  (what the backend's conversion gives when it is passed the base) is \<open>10\<close>.\<close>

theorem to_string_base_two:
  "to_string 2 (static_of 1 [2, 0]) 2 = Inr ''2''
   \<and> mpz_get_str 2 (get_mpz_view 2 (static_of 1 [2, 0])) = ''10''
   \<and> integer_value (static_of 1 [2, 0]) = 2"
  by (simp add: to_string_def mpz_to_str_def mpz_sizeinbase_def mpz_get_str_def
      digits_of.simps mpz_value_def get_mpz_view_st_def get_mpz_view_def static_of_def
      is_static_def first_word_def SIZE_MAX_def digit_char_def integer_value_def
      static_value_def)

section \<open>Shift\<close>

text \<open>C2: the public \<open>mul_2exp\<close> has an empty body: after \<open>mul_2exp(r, -5, 130)\<close> with two
  static limbs the state is unchanged and \<open>r\<close> is still 0, not \<open>-5 * 2^130\<close>.\<close>

theorem mul_2exp_does_nothing:
  "snd (mul_2exp 2 0 1 130 shift_example) = shift_example
   \<and> integer_value (objs (snd (mul_2exp 2 0 1 130 shift_example)) 0) = 0
   \<and> integer_value (objs shift_example 1) = - 5"
  by (simp add: mul_2exp_def shift_example_def world_of_def static_of_def integer_value_def
      static_value_def)

section \<open>The errors of the division\<close>

text \<open>C7, as stated, fails where both conditions hold: \<open>div(q, q, a, 0)\<close> throws
  \<open>std::invalid_argument\<close>, not the zero-division error, because the identity of \<open>q\<close> and \<open>r\<close>
  is checked first (objects 1, 2 and 0 of the division example: \<open>q = r\<close>, 7 and 0).\<close>

theorem div_same_object_zero_divisor:
  "integer_value (objs div_example 0) = 0
   \<and> fst (div_integer 2 True 1 1 2 0 div_example) = Inl invalid_argument
   \<and> \<not> is_domain_error invalid_argument"
  by (simp add: div_integer_def example_defs integer_value_def static_value_def
      is_domain_error_def)

text \<open>C7, amended: \<open>div(q, r, a, b)\<close> throws \<open>std::invalid_argument\<close> if and only if \<open>q\<close> and
  \<open>r\<close> are the same object; it throws \<open>zero_division_error\<close> (a \<open>std::domain_error\<close>) if and
  only if \<open>q\<close> and \<open>r\<close> are distinct objects and \<open>b\<close> is zero; and whenever \<open>q\<close> and \<open>r\<close> are
  the same object or \<open>b\<close> is zero, the state (every object and the pool) is left as it
  was.\<close>

theorem div_integer_errors:
  assumes "valid_integer SSize (objs w op2)"
  shows "(fst (div_integer SSize dd q r op1 op2 w) = Inl invalid_argument \<longleftrightarrow> q = r)
    \<and> (fst (div_integer SSize dd q r op1 op2 w) = Inl zero_division_error
         \<longleftrightarrow> q \<noteq> r \<and> integer_value (objs w op2) = 0)
    \<and> (q = r \<or> integer_value (objs w op2) = 0
         \<longrightarrow> snd (div_integer SSize dd q r op1 op2 w) = w)
    \<and> is_domain_error zero_division_error"
proof -
  have z: "sign (objs w op2) = 0 \<longleftrightarrow> integer_value (objs w op2) = 0"
    using assms by (rule sign_zero_iff)
  have a: "fst (div_integer SSize dd q r op1 op2 w) = Inl invalid_argument \<longleftrightarrow> q = r"
    using div_integer_error_aborted [of q r w op2 SSize dd op1 invalid_argument]
    by (auto simp: div_integer_def)
  have b: "fst (div_integer SSize dd q r op1 op2 w) = Inl zero_division_error
         \<longleftrightarrow> q \<noteq> r \<and> sign (objs w op2) = 0"
    using div_integer_error_aborted [of q r w op2 SSize dd op1 zero_division_error]
    by (auto simp: div_integer_def)
  have c: "q = r \<or> sign (objs w op2) = 0 \<longrightarrow> snd (div_integer SSize dd q r op1 op2 w) = w"
    by (auto simp: div_integer_def)
  from a b c z show ?thesis by (simp add: is_domain_error_def)
qed

theorem div_integer_errors_witness:
  "valid_integer 2 (objs div_example 5)
   \<and> integer_value (objs div_example 5) = 0
   \<and> fst (div_integer 2 True 0 1 2 5 div_example) = Inl zero_division_error
   \<and> snd (div_integer 2 True 0 1 2 5 div_example) = div_example
   \<and> fst (div_integer 2 True 1 1 2 3 div_example) = Inl invalid_argument
   \<and> snd (div_integer 2 True 1 1 2 3 div_example) = div_example"
proof -
  have v5: "valid_integer 2 (objs div_example 5)"
    by (simp add: example_defs valid_integer_def valid_static_def dtor_checks_def abs_size_def
        opt_size_def)
  have v3: "valid_integer 2 (objs div_example 3)"
    by (simp add: example_defs valid_integer_def valid_static_def dtor_checks_def abs_size_def
        opt_size_def)
  have z: "integer_value (objs div_example 5) = 0"
    by (simp add: example_defs integer_value_def static_value_def)
  show ?thesis
    using v5 z div_integer_errors [OF v5, of True 0 1 2] div_integer_errors [OF v3, of True 1 1 2]
    by simp
qed

section \<open>Construction from a value that is not finite\<close>

text \<open>C9, as stated, fails: the constructors throw \<open>std::invalid_argument\<close>, which is not a
  domain error (the constructor from \<open>double\<close> with two static limbs, on a NaN).\<close>

theorem float_ctor_nan_not_domain:
  "fst (integer_union_ctor_float 2 False NaN (mpz_raii_ctor, mpz_cache_ctor))
     = Inl invalid_argument
   \<and> \<not> is_domain_error invalid_argument"
  by (simp add: integer_union_ctor_float_def static_int_ctor_float_def isfinite_def
      is_domain_error_def)

text \<open>C9, amended: constructing an integer from a NaN or an infinity of \<open>float\<close>, \<open>double\<close> or
  \<open>long double\<close> throws \<open>std::invalid_argument\<close>; no integer is constructed, and the scratch
  descriptor and the pool are left as they were.\<close>

theorem float_ctor_not_finite:
  assumes "\<not> isfinite x"
  shows "integer_union_ctor_float SSize is_long_double x st = (Inl invalid_argument, st)"
  using assms
  by (cases st)
    (simp add: integer_union_ctor_float_def static_int_ctor_float_def
      static_int_ctor_long_double_def)

theorem float_ctor_not_finite_witness:
  "\<not> isfinite (Infinity True)
   \<and> integer_union_ctor_float 2 True (Infinity True) (mpz_raii_ctor, mpz_cache_ctor)
       = (Inl invalid_argument, mpz_raii_ctor, mpz_cache_ctor)
   \<and> integer_union_ctor_float 2 False NaN (mpz_raii_ctor, mpz_cache_ctor)
       = (Inl invalid_argument, mpz_raii_ctor, mpz_cache_ctor)"
proof -
  have h1: "\<not> isfinite (Infinity True)" by (simp add: isfinite_def)
  have h2: "\<not> isfinite NaN" by (simp add: isfinite_def)
  show ?thesis
    using h1 float_ctor_not_finite [OF h1, of 2 True "(mpz_raii_ctor, mpz_cache_ctor)"]
      float_ctor_not_finite [OF h2, of 2 False "(mpz_raii_ctor, mpz_cache_ctor)"]
    by simp
qed

section \<open>The moved-from integer\<close>

text \<open>C6, as stated, fails for a move assignment between two dynamic integers: the
  descriptors are swapped, so the moved-from integer (object 1 of the move example, 9 before
  the assignment to object 0, which holds 5) is still dynamic and now holds 5.\<close>

theorem move_assign_dynamic_swaps:
  "is_dynamic (objs move_example 1)
   \<and> is_dynamic (objs (move_assign 2 0 1 move_example) 1)
   \<and> integer_value (objs (move_assign 2 0 1 move_example) 1) = 5"
  by (simp add: example_defs is_dynamic_def is_static_def first_word_def move_assign_def
      mpz_swap_def integer_value_def mpz_value_def)

text \<open>C6, amended: for distinct objects and a valid source, the move constructor gives the
  new object the source's value and storage, and leaves a dynamic source as the static zero
  and a static source unchanged (a bit copy). Move assignment to a valid destination does
  the same when the destination is static or the source is static; between two dynamic
  integers it swaps the descriptors, so the moved-from integer holds the destination's
  previous value. The static zero is in static storage, valid and equal to zero.\<close>

theorem move_leaves_source:
  assumes "this \<noteq> other" and "valid_integer SSize (objs w other)"
  shows "(let w1 = integer_union_move_ctor SSize this other w in
            objs w1 this = objs w other
            \<and> objs w1 other
                = (if is_dynamic (objs w other) then St (static_int_ctor SSize) else objs w other))
    \<and> (valid_integer SSize (objs w this) \<longrightarrow>
         (let w2 = move_assign SSize this other w in
            objs w2 this = objs w other
            \<and> objs w2 other
                = (if is_static (objs w other) then objs w other
                   else if is_static (objs w this) then St (static_int_ctor SSize)
                   else objs w this)))
    \<and> is_static (St (static_int_ctor SSize))
    \<and> valid_integer SSize (St (static_int_ctor SSize))
    \<and> integer_value (St (static_int_ctor SSize)) = 0"
proof -
  have z: "is_static (St (static_int_ctor SSize))"
    "valid_integer SSize (St (static_int_ctor SSize))"
    "integer_value (St (static_int_ctor SSize)) = 0"
    using static_zero_valid [of SSize]
    by (simp_all add: is_static_St valid_integer_def integer_value_def static_zero_value)
  have c: "let w1 = integer_union_move_ctor SSize this other w in
            objs w1 this = objs w other
            \<and> objs w1 other
                = (if is_dynamic (objs w other) then St (static_int_ctor SSize) else objs w other)"
    using assms is_static_valid [OF assms(2)]
    by (cases "objs w other")
      (auto simp: integer_union_move_ctor_def Let_def is_dynamic_iff valid_integer_def is_static_Dy)
  have a: "let w2 = move_assign SSize this other w in
            objs w2 this = objs w other
            \<and> objs w2 other
                = (if is_static (objs w other) then objs w other
                   else if is_static (objs w this) then St (static_int_ctor SSize)
                   else objs w this)"
    if vt: "valid_integer SSize (objs w this)"
    using assms is_static_valid [OF assms(2)] is_static_valid [OF vt] vt
    by (cases "objs w other"; cases "objs w this")
      (auto simp: move_assign_def Let_def valid_integer_def is_static_Dy is_static_St
        destroy_dynamic_def mpz_swap_def)
  from z c a show ?thesis by simp
qed

theorem move_leaves_source_witness:
  "(3::nat) \<noteq> 1 \<and> valid_integer 2 (objs move_example 1) \<and> valid_integer 2 (objs move_example 2)
   \<and> objs (integer_union_move_ctor 2 3 1 move_example) 1 = St (static_int_ctor 2)
   \<and> objs (integer_union_move_ctor 2 3 1 move_example) 3 = dynamic_of 1 [9]
   \<and> objs (move_assign 2 2 1 move_example) 1 = St (static_int_ctor 2)
   \<and> objs (move_assign 2 2 1 move_example) 2 = dynamic_of 1 [9]"
proof -
  have ne: "(3::nat) \<noteq> 1" "(2::nat) \<noteq> 1" by simp_all
  have v1: "valid_integer 2 (objs move_example 1)"
    by (simp add: example_defs valid_integer_def valid_mpz_def)
  have v2: "valid_integer 2 (objs move_example 2)"
    by (simp add: example_defs valid_integer_def valid_static_def dtor_checks_def abs_size_def
        opt_size_def)
  have d: "is_dynamic (objs move_example 1)" "is_static (objs move_example 2)"
    "objs move_example 1 = dynamic_of 1 [9]"
    by (simp_all add: example_defs is_dynamic_def is_static_def first_word_def)
  show ?thesis
    using v1 v2 d move_leaves_source [OF ne(1) v1] move_leaves_source [OF ne(2) v1]
    by (simp add: Let_def is_dynamic_iff)
qed

section \<open>Failure of a static kernel\<close>

text \<open>C8: whenever the static addition or subtraction kernel (of any static size, hence each
  of the three algorithms) or one of the three static shift kernels returns false, every
  object is exactly as it was on entry, the destination included, whether or not the
  destination is the same object as an operand. (The general shift kernel has inputs on which
  the source writes outside the array; it returns nothing there, so such a run is not one
  that returns false.)\<close>

theorem static_kernels_failure_frame:
  "(fst (static_addsub AddOrSub SSize h rop op1 op2) = False
      \<longrightarrow> snd (static_addsub AddOrSub SSize h rop op1 op2) = h)
   \<and> (map_option fst (static_mul_2exp_impl_0 SSize h rop n s) = Some False
      \<longrightarrow> map_option snd (static_mul_2exp_impl_0 SSize h rop n s) = Some h)
   \<and> (fst (static_mul_2exp_impl_1 h rop n s) = False
      \<longrightarrow> snd (static_mul_2exp_impl_1 h rop n s) = h)
   \<and> (fst (static_mul_2exp_impl_2 h rop n s) = False
      \<longrightarrow> snd (static_mul_2exp_impl_2 h rop n s) = h)"
  using static_addsub_frame [of AddOrSub SSize h rop op1 op2]
    static_mul_2exp_impl_0_frame [of h SSize rop n s]
    static_mul_2exp_impl_1_frame [of h rop n s]
    static_mul_2exp_impl_2_frame [of h rop n s]
  by (cases "static_mul_2exp_impl_0 SSize h rop n s") auto

theorem static_kernels_failure_frame_witness:
  "fst (static_addsub True 2 (objs overflow_example) 1 1 2) = False
   \<and> snd (static_addsub True 2 (objs overflow_example) 1 1 2) = objs overflow_example
   \<and> map_option fst (static_mul_2exp_impl_0 2 (objs overflow_example) 1 1 130) = Some False
   \<and> map_option snd (static_mul_2exp_impl_0 2 (objs overflow_example) 1 1 130)
        = Some (objs overflow_example)
   \<and> fst (static_mul_2exp_impl_1 (objs overflow_example) 1 1 130) = False
   \<and> snd (static_mul_2exp_impl_1 (objs overflow_example) 1 1 130) = objs overflow_example
   \<and> fst (static_mul_2exp_impl_2 (objs overflow_example) 1 1 130) = False
   \<and> snd (static_mul_2exp_impl_2 (objs overflow_example) 1 1 130) = objs overflow_example"
proof -
  have e1: "fst (static_addsub True 2 (objs overflow_example) 1 1 2) = False"
    by (simp add: static_addsub_def static_add_algo_def static_add_impl_2_def example_defs
        heap_defs limb_add_overflow_def Let_def)
  have e2: "map_option fst (static_mul_2exp_impl_0 2 (objs overflow_example) 1 1 130)
      = Some False"
    by (simp add: static_mul_2exp_impl_0_def example_defs heap_defs Let_def GMP_NUMB_BITS_def
        size_t_of_int_def)
  have e3: "fst (static_mul_2exp_impl_1 (objs overflow_example) 1 1 130) = False"
    by (simp add: static_mul_2exp_impl_1_def example_defs heap_defs Let_def GMP_NUMB_BITS_def)
  have e4: "fst (static_mul_2exp_impl_2 (objs overflow_example) 1 1 130) = False"
    by (simp add: static_mul_2exp_impl_2_def example_defs heap_defs Let_def GMP_NUMB_BITS_def)
  show ?thesis
    using e1 e2 e3 e4
      static_kernels_failure_frame [of True 2 "objs overflow_example" 1 1 2 1 130]
    by simp
qed

section \<open>Addition of two full static operands of opposite signs\<close>




subsection \<open>Division with remainder\<close>

text \<open>C1: for integers \<open>a\<close> and \<open>b\<close> with \<open>b\<close> nonzero, \<open>div(q, r, a, b)\<close> with \<open>q\<close> and \<open>r\<close>
  distinct objects returns normally and leaves in \<open>q\<close> and \<open>r\<close> values with \<open>q * b + r = a\<close>,
  \<open>|r| < |b|\<close>, and \<open>r = 0\<close> or the sign of \<open>r\<close> equal to the sign of \<open>a\<close>. This holds for every
  static size the class accepts (at most 64 limbs), with or without the double-limb division,
  for every combination of static and dynamic storage of the four objects, and also when an
  operand is the same object as \<open>q\<close>, \<open>r\<close> or the other operand; \<open>a\<close> and \<open>b\<close> are the values the
  operands have on entry.\<close>

theorem div_integer_correct:
  assumes "SSize \<le> 64"
    and "valid_integer SSize (objs w q)" and "valid_integer SSize (objs w r)"
    and "valid_integer SSize (objs w op1)" and "valid_integer SSize (objs w op2)"
    and "valid_cache (cache w)"
    and "q \<noteq> r" and "integer_value (objs w op2) \<noteq> 0"
  shows "\<exists>w'. div_integer SSize dd q r op1 op2 w = (Inr (), w')
    \<and> integer_value (objs w' q) * integer_value (objs w op2) + integer_value (objs w' r)
        = integer_value (objs w op1)
    \<and> \<bar>integer_value (objs w' r)\<bar> < \<bar>integer_value (objs w op2)\<bar>
    \<and> (integer_value (objs w' r) = 0
        \<or> sgn (integer_value (objs w' r)) = sgn (integer_value (objs w op1)))"
proof -
  from div_integer_values [OF assms, of dd] obtain w' where
    r: "div_integer SSize dd q r op1 op2 w = (Inr (), w')"
    and vq: "integer_value (objs w' q)
        = tdiv (integer_value (objs w op1)) (integer_value (objs w op2))"
    and vr: "integer_value (objs w' r)
        = trem (integer_value (objs w op1)) (integer_value (objs w op2))"
    by blast
  note t = tdiv_trem [OF assms(8), of "integer_value (objs w op1)"]
  have "integer_value (objs w' q) * integer_value (objs w op2) + integer_value (objs w' r)
        = integer_value (objs w op1)
    \<and> \<bar>integer_value (objs w' r)\<bar> < \<bar>integer_value (objs w op2)\<bar>
    \<and> (integer_value (objs w' r) = 0
        \<or> sgn (integer_value (objs w' r)) = sgn (integer_value (objs w op1)))"
    unfolding vq vr using t by simp
  with r show ?thesis by blast
qed

theorem div_integer_correct_witness:
  "fst (div_integer 2 True 0 1 2 3 div_example) = Inr ()
   \<and> integer_value (objs div_example 2) = 7
   \<and> integer_value (objs div_example 3) = - 2
   \<and> integer_value (objs (snd (div_integer 2 True 0 1 2 3 div_example)) 0) = - 3
   \<and> integer_value (objs (snd (div_integer 2 True 0 1 2 3 div_example)) 1) = 1"
proof -
  have v: "valid_integer 2 (objs div_example x)" for x
    by (simp add: example_defs valid_integer_def valid_static_def dtor_checks_def abs_size_def
        opt_size_def)
  have c: "valid_cache (cache div_example)"
    by (simp add: example_defs valid_cache_def mpz_cache_ctor_def max_size_def list_all_iff)
  have a: "integer_value (objs div_example 2) = 7"
    by (simp add: example_defs integer_value_def static_value_def)
  have b: "integer_value (objs div_example 3) = - 2"
    by (simp add: example_defs integer_value_def static_value_def)
  from div_integer_correct [of 2 div_example 0 1 2 3 True, OF _ v v v v c]
  obtain w' where r: "div_integer 2 True 0 1 2 3 div_example = (Inr (), w')"
    and e: "integer_value (objs w' 0) * (- 2) + integer_value (objs w' 1) = 7"
    and m: "\<bar>integer_value (objs w' 1)\<bar> < 2"
    and s: "integer_value (objs w' 1) = 0 \<or> sgn (integer_value (objs w' 1)) = 1"
    unfolding a b by auto
  have p: "0 \<le> integer_value (objs w' 1)" using s by (auto simp: sgn_if split: if_splits)
  have r1: "integer_value (objs w' 1) = 1" using e m p by presburger
  have q1: "integer_value (objs w' 0) = - 3" using e r1 by simp
  show ?thesis
    unfolding r using a b r1 q1 by simp
qed

end
